theory Spec2Isabelle
  imports Complex_Main
begin

section \<open>Floating-point values\<close>

text \<open>
  Both artifacts compute on IEEE-754 binary floating-point numbers: the C program on
  \<^verbatim>\<open>float\<close> (binary32), with one comparison against the \<^verbatim>\<open>double\<close> constant
  \<^verbatim>\<open>MAX_ERR\<close>; the notebook on \<^verbatim>\<open>float32\<close> arrays.

  A finite value is kept in sign-magnitude form, as the formats store it. The magnitude is
  counted in units of the smallest subnormal of the format (\<open>2 ^ -149\<close> for binary32,
  \<open>2 ^ -1074\<close> for binary64), so every finite value of a format is a natural number of
  units and sums of finite values are exact integers before rounding. NaN payloads are not
  distinguished.
\<close>

datatype fp = Fin bool nat | Infty bool | NaN

datatype format = Binary32 | Binary64

text \<open>Significand precision in bits.\<close>

fun prec :: "format \<Rightarrow> nat" where
  "prec Binary32 = 24"
| "prec Binary64 = 53"

text \<open>One unit is \<open>2 ^ - scale\<close>.\<close>

fun scale :: "format \<Rightarrow> nat" where
  "scale Binary32 = 149"
| "scale Binary64 = 1074"

text \<open>A magnitude of \<open>2 ^ maxbits\<close> units or more (after rounding) overflows to infinity.\<close>

fun maxbits :: "format \<Rightarrow> nat" where
  "maxbits Binary32 = 277"
| "maxbits Binary64 = 2098"

fun bit_length :: "nat \<Rightarrow> nat" where
  "bit_length n = (if n = 0 then 0 else Suc (bit_length (n div 2)))"

declare bit_length.simps [simp del]

text \<open>
  The magnitudes a format can store: at most \<open>prec\<close> significant bits, below the
  overflow threshold.
\<close>

definition representable :: "format \<Rightarrow> nat \<Rightarrow> bool" where
  "representable f m \<longleftrightarrow>
     m < 2 ^ maxbits f \<and>
     (bit_length m \<le> prec f \<or> 2 ^ (bit_length m - prec f) dvd m)"

fun is_fp :: "format \<Rightarrow> fp \<Rightarrow> bool" where
  "is_fp f (Fin s m) = representable f m"
| "is_fp f (Infty s) = True"
| "is_fp f NaN = True"

text \<open>The real number a finite value stands for.\<close>

fun valof :: "format \<Rightarrow> fp \<Rightarrow> real" where
  "valof f (Fin s m) = (if s then - real m else real m) / 2 ^ scale f"
| "valof f (Infty s) = 0"
| "valof f NaN = 0"

fun is_finite :: "fp \<Rightarrow> bool" where
  "is_finite (Fin s m) = True"
| "is_finite (Infty s) = False"
| "is_finite NaN = False"

subsection \<open>Rounding to nearest, ties to even\<close>

text \<open>\<open>rne_div n d\<close> is the integer nearest to \<open>n / d\<close>, the even one on a tie.\<close>

definition rne_div :: "nat \<Rightarrow> nat \<Rightarrow> nat" where
  "rne_div n d =
     (let q = n div d; r = n mod d
      in if 2 * r < d then q
         else if d < 2 * r then q + 1
         else if even q then q else q + 1)"

text \<open>
  \<open>round_mag p n d\<close> rounds the magnitude \<open>n / d\<close> (in units) to \<open>p\<close> significant
  bits: below \<open>2 ^ p\<close> units the spacing is one unit, above it the spacing doubles with
  every binade.
\<close>

definition round_mag :: "nat \<Rightarrow> nat \<Rightarrow> nat \<Rightarrow> nat" where
  "round_mag p n d =
     (let b = bit_length (n div d)
      in if b \<le> p then rne_div n d
         else rne_div n (d * 2 ^ (b - p)) * 2 ^ (b - p))"

definition fround :: "format \<Rightarrow> bool \<Rightarrow> nat \<Rightarrow> nat \<Rightarrow> fp" where
  "fround f s n d =
     (let m = round_mag (prec f) n d
      in if m < 2 ^ maxbits f then Fin s m else Infty s)"

subsection \<open>Operations\<close>

definition signed :: "bool \<Rightarrow> nat \<Rightarrow> int" where
  "signed s m = (if s then - int m else int m)"

fun fadd :: "format \<Rightarrow> fp \<Rightarrow> fp \<Rightarrow> fp" where
  "fadd f NaN y = NaN"
| "fadd f x NaN = NaN"
| "fadd f (Infty s) (Infty t) = (if s = t then Infty s else NaN)"
| "fadd f (Infty s) (Fin t k) = Infty s"
| "fadd f (Fin s m) (Infty t) = Infty t"
| "fadd f (Fin s m) (Fin t k) =
     (let z = signed s m + signed t k
      in if z = 0 then Fin (s \<and> t) 0
         else fround f (z < 0) (nat \<bar>z\<bar>) 1)"

fun fneg :: "fp \<Rightarrow> fp" where
  "fneg (Fin s m) = Fin (\<not> s) m"
| "fneg (Infty s) = Infty (\<not> s)"
| "fneg NaN = NaN"

definition fsub :: "format \<Rightarrow> fp \<Rightarrow> fp \<Rightarrow> fp" where
  "fsub f x y = fadd f x (fneg y)"

fun fabs :: "fp \<Rightarrow> fp" where
  "fabs (Fin s m) = Fin False m"
| "fabs (Infty s) = Infty False"
| "fabs NaN = NaN"

text \<open>Conversion between formats (exact from binary32 to binary64).\<close>

fun fconv :: "format \<Rightarrow> format \<Rightarrow> fp \<Rightarrow> fp" where
  "fconv f g (Fin s m) = fround g s (m * 2 ^ scale g) (2 ^ scale f)"
| "fconv f g (Infty s) = Infty s"
| "fconv f g NaN = NaN"

text \<open>
  The ordered comparison \<open>x < y\<close> of two values of the same format: false as soon as one
  operand is NaN.
\<close>

fun flt :: "fp \<Rightarrow> fp \<Rightarrow> bool" where
  "flt NaN y = False"
| "flt x NaN = False"
| "flt (Infty s) (Infty t) = (s \<and> \<not> t)"
| "flt (Infty s) (Fin t k) = s"
| "flt (Fin s m) (Infty t) = (\<not> t)"
| "flt (Fin s m) (Fin t k) = (signed s m < signed t k)"

text \<open>A decimal literal \<open>n / d\<close>, correctly rounded into the format.\<close>

definition fconst :: "format \<Rightarrow> nat \<Rightarrow> nat \<Rightarrow> fp" where
  "fconst f n d = fround f False (n * 2 ^ scale f) d"

text \<open>Multiplication and division: the sign is the exclusive or of the signs.\<close>

fun fmul :: "format \<Rightarrow> fp \<Rightarrow> fp \<Rightarrow> fp" where
  "fmul f NaN y = NaN"
| "fmul f x NaN = NaN"
| "fmul f (Infty s) (Infty t) = Infty (s \<noteq> t)"
| "fmul f (Infty s) (Fin t k) = (if k = 0 then NaN else Infty (s \<noteq> t))"
| "fmul f (Fin s m) (Infty t) = (if m = 0 then NaN else Infty (s \<noteq> t))"
| "fmul f (Fin s m) (Fin t k) = fround f (s \<noteq> t) (m * k) (2 ^ scale f)"

fun fdiv :: "format \<Rightarrow> fp \<Rightarrow> fp \<Rightarrow> fp" where
  "fdiv f NaN y = NaN"
| "fdiv f x NaN = NaN"
| "fdiv f (Infty s) (Infty t) = NaN"
| "fdiv f (Infty s) (Fin t k) = Infty (s \<noteq> t)"
| "fdiv f (Fin s m) (Infty t) = Fin (s \<noteq> t) 0"
| "fdiv f (Fin s m) (Fin t k) =
     (if k = 0 then (if m = 0 then NaN else Infty (s \<noteq> t))
      else fround f (s \<noteq> t) (m * 2 ^ scale f) k)"


fun is_nan :: "fp \<Rightarrow> bool" where
  "is_nan NaN = True"
| "is_nan (Fin s m) = False"
| "is_nan (Infty s) = False"

text \<open>An integer converted into the format.\<close>

definition of_int_fp :: "format \<Rightarrow> int \<Rightarrow> fp" where
  "of_int_fp f i = fround f (i < 0) (nat \<bar>i\<bar> * 2 ^ scale f) 1"

section \<open>Memory\<close>

text \<open>
  Host and device memory are separate heaps of blocks; a block is the list of the
  \<^verbatim>\<open>float\<close> cells of one allocation and a pointer is a block with an offset counted in
  elements, so that two pointer arguments may name the same or overlapping cells. An
  access outside an allocated block is undefined behaviour in C; the model stops with
  \<open>Segfault\<close>.
\<close>

type_synonym ptr = "nat \<times> nat"

type_synonym heap = "nat \<Rightarrow> fp list option"

datatype failure = Segfault | AssertionFailed nat

definition load :: "heap \<Rightarrow> ptr \<Rightarrow> nat \<Rightarrow> failure + fp" where
  "load h p i =
     (case h (fst p) of
        None \<Rightarrow> Inl Segfault
      | Some xs \<Rightarrow>
          if snd p + i < length xs then Inr (xs ! (snd p + i)) else Inl Segfault)"

definition store :: "heap \<Rightarrow> ptr \<Rightarrow> nat \<Rightarrow> fp \<Rightarrow> failure + heap" where
  "store h p i v =
     (case h (fst p) of
        None \<Rightarrow> Inl Segfault
      | Some xs \<Rightarrow>
          if snd p + i < length xs
          then Inr (h(fst p \<mapsto> xs[snd p + i := v]))
          else Inl Segfault)"

text \<open>\<open>in_range p n\<close>: the cells \<open>p[0]\<close> to \<open>p[n - 1]\<close>, as block and index.\<close>

definition in_range :: "ptr \<Rightarrow> nat \<Rightarrow> (nat \<times> nat) set" where
  "in_range p n = {(blk, j). blk = fst p \<and> snd p \<le> j \<and> j < snd p + n}"

text \<open>\<open>allocated h p n\<close>: the cells \<open>p[0]\<close> to \<open>p[n - 1]\<close> lie inside a live block.\<close>

definition allocated :: "heap \<Rightarrow> ptr \<Rightarrow> nat \<Rightarrow> bool" where
  "allocated h p n =
     (case h (fst p) of None \<Rightarrow> False | Some xs \<Rightarrow> snd p + n \<le> length xs)"

text \<open>The content of a cell, by block and index; \<open>None\<close> where nothing is allocated.\<close>

definition cell :: "heap \<Rightarrow> nat \<times> nat \<Rightarrow> fp option" where
  "cell h c =
     (case h (fst c) of
        None \<Rightarrow> None
      | Some xs \<Rightarrow> if snd c < length xs then Some (xs ! snd c) else None)"

section \<open>The kernel\<close>

text \<open>
  \<^verbatim>\<open>
  __global__ void vector_add(float *out, float *a, float *b, int n) {
      for(int i = 0; i < n; i++){
          out[i] = a[i] + b[i];
      }
  }
  \<close>
  The loop runs on device memory. The device state also keeps a log: one entry for every
  thread that starts the kernel body and one for every store, in the order of execution.
\<close>

datatype kevent = ThreadStart | Write nat

record kstate =
  dmem :: heap
  klog :: "kevent list"

function vector_add_loop :: "ptr \<Rightarrow> ptr \<Rightarrow> ptr \<Rightarrow> int \<Rightarrow> int \<Rightarrow> kstate \<Rightarrow> failure + kstate" where
  "vector_add_loop out a b n i s =
     (if i < n then
        (case load (dmem s) a (nat i) of
           Inl e \<Rightarrow> Inl e
         | Inr x \<Rightarrow>
        (case load (dmem s) b (nat i) of
           Inl e \<Rightarrow> Inl e
         | Inr y \<Rightarrow>
        (case store (dmem s) out (nat i) (fadd Binary32 x y) of
           Inl e \<Rightarrow> Inl e
         | Inr h \<Rightarrow>
             vector_add_loop out a b n (i + 1)
               (s\<lparr>dmem := h, klog := klog s @ [Write (nat i)]\<rparr>))))
      else Inr s)"
  by pat_completeness auto
termination
  by (relation "measure (\<lambda>(out, a, b, n, i, s). nat (n - i))") auto

declare vector_add_loop.simps [simp del]

definition vector_add :: "ptr \<Rightarrow> ptr \<Rightarrow> ptr \<Rightarrow> int \<Rightarrow> kstate \<Rightarrow> failure + kstate" where
  "vector_add out a b n s = vector_add_loop out a b n 0 s"

text \<open>
  A launch \<^verbatim>\<open><<<grid, block>>>\<close> starts \<open>grid * block\<close> threads, each of which runs the
  kernel body. The body of \<^verbatim>\<open>vector_add\<close> does not read its thread index, so every
  thread runs the same loop; the threads are run one after the other.
\<close>

fun run_threads :: "nat \<Rightarrow> (kstate \<Rightarrow> failure + kstate) \<Rightarrow> kstate \<Rightarrow> failure + kstate" where
  "run_threads 0 body s = Inr s"
| "run_threads (Suc t) body s =
     (case body (s\<lparr>klog := klog s @ [ThreadStart]\<rparr>) of
        Inl e \<Rightarrow> Inl e
      | Inr s' \<Rightarrow> run_threads t body s')"

definition launch :: "nat \<Rightarrow> nat \<Rightarrow> (kstate \<Rightarrow> failure + kstate) \<Rightarrow> kstate \<Rightarrow> failure + kstate" where
  "launch grid block body s = run_threads (grid * block) body s"

section \<open>The host program\<close>

text \<open>
  \<^verbatim>\<open>
  #define N 10000
  #define MAX_ERR 1E-6
  \<close>
  \<^verbatim>\<open>MAX_ERR\<close> is a \<^verbatim>\<open>double\<close> literal.
\<close>

definition N :: nat where
  "N = 10000"

definition MAX_ERR :: fp where
  "MAX_ERR = fconst Binary64 1 1000000"

text \<open>The \<^verbatim>\<open>float\<close> literals \<^verbatim>\<open>1.0f\<close> and \<^verbatim>\<open>2.0f\<close>.\<close>

definition lit_1_0f :: fp where
  "lit_1_0f = fconst Binary32 1 1"

definition lit_2_0f :: fp where
  "lit_2_0f = fconst Binary32 2 1"

text \<open>
  The pointer variables of \<^verbatim>\<open>main\<close>, the two kinds of copy, the calls the program
  makes (logged in the order in which they complete) and what it prints.
\<close>

datatype var = var_a | var_b | var_out | var_d_a | var_d_b | var_d_out

datatype kind = cudaMemcpyHostToDevice | cudaMemcpyDeviceToHost

datatype call =
    Call_malloc var nat
  | Call_cudaMalloc var nat
  | Call_cudaMemcpy var var nat kind
  | Call_launch nat nat
  | Call_assert nat
  | Call_printf
  | Call_cudaFree var
  | Call_free var

datatype printed = Formatted string fp | Text string

text \<open>
  The state of the process. \<^verbatim>\<open>malloc\<close> and \<^verbatim>\<open>cudaMalloc\<close> do not initialise what they
  allocate: the initial content of the \<open>k\<close>-th host (device) block is \<open>hgarbage k\<close>
  (\<open>dgarbage k\<close>), which is arbitrary. Sizes are counted in elements, not bytes. The
  program checks no return code; allocation and copies are taken to succeed whenever
  their arguments are valid.
\<close>

record state =
  vars :: "var \<Rightarrow> ptr"
  hmem :: heap
  dev :: kstate
  hnext :: nat
  dnext :: nat
  hgarbage :: "nat \<Rightarrow> nat \<Rightarrow> fp"
  dgarbage :: "nat \<Rightarrow> nat \<Rightarrow> fp"
  calls :: "call list"
  stdout :: "printed list"

definition initial :: "(nat \<Rightarrow> nat \<Rightarrow> fp) \<Rightarrow> (nat \<Rightarrow> nat \<Rightarrow> fp) \<Rightarrow> state" where
  "initial hg dg =
     \<lparr>vars = (\<lambda>v. (0, 0)), hmem = Map.empty, dev = \<lparr>dmem = Map.empty, klog = []\<rparr>,
      hnext = 0, dnext = 0, hgarbage = hg, dgarbage = dg, calls = [], stdout = []\<rparr>"

type_synonym stmt = "state \<Rightarrow> failure + state"

definition malloc :: "var \<Rightarrow> nat \<Rightarrow> stmt" where
  "malloc v n s =
     Inr (s\<lparr>vars := (vars s)(v := (hnext s, 0)),
            hmem := (hmem s)(hnext s \<mapsto> map (hgarbage s (hnext s)) [0..<n]),
            hnext := Suc (hnext s),
            calls := calls s @ [Call_malloc v n]\<rparr>)"

definition cudaMalloc :: "var \<Rightarrow> nat \<Rightarrow> stmt" where
  "cudaMalloc v n s =
     Inr (s\<lparr>vars := (vars s)(v := (dnext s, 0)),
            dev := (dev s)\<lparr>dmem := (dmem (dev s))(dnext s \<mapsto> map (dgarbage s (dnext s)) [0..<n])\<rparr>,
            dnext := Suc (dnext s),
            calls := calls s @ [Call_cudaMalloc v n]\<rparr>)"

text \<open>
  \<^verbatim>\<open>
  for(int i = 0; i < N; i++){
      a[i] = 1.0f;
      b[i] = 2.0f;
  }
  \<close>
\<close>

function init_loop :: "nat \<Rightarrow> stmt" where
  "init_loop i s =
     (if i < N then
        (case store (hmem s) (vars s var_a) i lit_1_0f of
           Inl e \<Rightarrow> Inl e
         | Inr h \<Rightarrow>
        (case store h (vars s var_b) i lit_2_0f of
           Inl e \<Rightarrow> Inl e
         | Inr h' \<Rightarrow> init_loop (i + 1) (s\<lparr>hmem := h'\<rparr>)))
      else Inr s)"
  by pat_completeness auto
termination
  by (relation "measure (\<lambda>(i, s). N - i)") auto

declare init_loop.simps [simp del]

text \<open>Copying \<open>n\<close> cells from \<open>src\<close> in one heap to \<open>dst\<close> in another.\<close>

definition copy_cells :: "heap \<Rightarrow> ptr \<Rightarrow> heap \<Rightarrow> ptr \<Rightarrow> nat \<Rightarrow> failure + heap" where
  "copy_cells hs src ht dst n =
     (case hs (fst src) of
        None \<Rightarrow> Inl Segfault
      | Some xs \<Rightarrow>
     (case ht (fst dst) of
        None \<Rightarrow> Inl Segfault
      | Some ys \<Rightarrow>
          if snd src + n \<le> length xs \<and> snd dst + n \<le> length ys
          then Inr (ht(fst dst \<mapsto>
                 take (snd dst) ys @ take n (drop (snd src) xs) @ drop (snd dst + n) ys))
          else Inl Segfault))"

definition cudaMemcpy :: "var \<Rightarrow> var \<Rightarrow> nat \<Rightarrow> kind \<Rightarrow> stmt" where
  "cudaMemcpy dst src n k s =
     (case k of
        cudaMemcpyHostToDevice \<Rightarrow>
          (case copy_cells (hmem s) (vars s src) (dmem (dev s)) (vars s dst) n of
             Inl e \<Rightarrow> Inl e
           | Inr h \<Rightarrow>
               Inr (s\<lparr>dev := (dev s)\<lparr>dmem := h\<rparr>,
                      calls := calls s @ [Call_cudaMemcpy dst src n k]\<rparr>))
      | cudaMemcpyDeviceToHost \<Rightarrow>
          (case copy_cells (dmem (dev s)) (vars s src) (hmem s) (vars s dst) n of
             Inl e \<Rightarrow> Inl e
           | Inr h \<Rightarrow>
               Inr (s\<lparr>hmem := h, calls := calls s @ [Call_cudaMemcpy dst src n k]\<rparr>)))"

text \<open>\<^verbatim>\<open>vector_add<<<grid,block>>>(out, a, b, n);\<close>\<close>

definition launch_vector_add :: "nat \<Rightarrow> nat \<Rightarrow> var \<Rightarrow> var \<Rightarrow> var \<Rightarrow> int \<Rightarrow> stmt" where
  "launch_vector_add grid block out a b n s =
     (case launch grid block (vector_add (vars s out) (vars s a) (vars s b) n) (dev s) of
        Inl e \<Rightarrow> Inl e
      | Inr d \<Rightarrow> Inr (s\<lparr>dev := d, calls := calls s @ [Call_launch grid block]\<rparr>))"

text \<open>
  \<^verbatim>\<open>
  for(int i = 0; i < N; i++){
      assert(fabs(out[i] - a[i] - b[i]) < MAX_ERR);
  }
  \<close>
  The subtractions are \<^verbatim>\<open>float\<close> operations; the absolute value is converted to
  \<^verbatim>\<open>double\<close> for the comparison with \<^verbatim>\<open>MAX_ERR\<close>. A failed assertion ends the
  process at once.
\<close>

definition assert_cond :: "fp \<Rightarrow> fp \<Rightarrow> fp \<Rightarrow> bool" where
  "assert_cond x y z =
     flt (fconv Binary32 Binary64 (fabs (fsub Binary32 (fsub Binary32 x y) z))) MAX_ERR"

function verify_loop :: "nat \<Rightarrow> stmt" where
  "verify_loop i s =
     (if i < N then
        (case load (hmem s) (vars s var_out) i of
           Inl e \<Rightarrow> Inl e
         | Inr x \<Rightarrow>
        (case load (hmem s) (vars s var_a) i of
           Inl e \<Rightarrow> Inl e
         | Inr y \<Rightarrow>
        (case load (hmem s) (vars s var_b) i of
           Inl e \<Rightarrow> Inl e
         | Inr z \<Rightarrow>
             if assert_cond x y z
             then verify_loop (i + 1) (s\<lparr>calls := calls s @ [Call_assert i]\<rparr>)
             else Inl (AssertionFailed i))))
      else Inr s)"
  by pat_completeness auto
termination
  by (relation "measure (\<lambda>(i, s). N - i)") auto

declare verify_loop.simps [simp del]

text \<open>
  \<^verbatim>\<open>
  printf("out[0] = %f\n", out[0]);
  printf("PASSED\n");
  \<close>
\<close>

definition printf_out0 :: stmt where
  "printf_out0 s =
     (case load (hmem s) (vars s var_out) 0 of
        Inl e \<Rightarrow> Inl e
      | Inr x \<Rightarrow>
          Inr (s\<lparr>stdout := stdout s @ [Formatted ''out[0] = %f'' (fconv Binary32 Binary64 x)],
                 calls := calls s @ [Call_printf]\<rparr>))"

definition printf_passed :: stmt where
  "printf_passed s =
     Inr (s\<lparr>stdout := stdout s @ [Text ''PASSED''], calls := calls s @ [Call_printf]\<rparr>)"

definition cudaFree :: "var \<Rightarrow> stmt" where
  "cudaFree v s =
     Inr (s\<lparr>dev := (dev s)\<lparr>dmem := (dmem (dev s))(fst (vars s v) := None)\<rparr>,
            calls := calls s @ [Call_cudaFree v]\<rparr>)"

definition free :: "var \<Rightarrow> stmt" where
  "free v s =
     Inr (s\<lparr>hmem := (hmem s)(fst (vars s v) := None), calls := calls s @ [Call_free v]\<rparr>)"

text \<open>Statements in sequence; the first failure ends the run.\<close>

fun run :: "stmt list \<Rightarrow> stmt" where
  "run [] s = Inr s"
| "run (c # cs) s = (case c s of Inl e \<Rightarrow> Inl e | Inr s' \<Rightarrow> run cs s')"

text \<open>
  \<^verbatim>\<open>main\<close>, statement by statement: first everything up to the copy of the result back
  to the host, then the verification, the two prints and the deallocation.
\<close>

definition compute :: "stmt list" where
  "compute =
     [malloc var_a N,
      malloc var_b N,
      malloc var_out N,
      init_loop 0,
      cudaMalloc var_d_a N,
      cudaMalloc var_d_b N,
      cudaMalloc var_d_out N,
      cudaMemcpy var_d_a var_a N cudaMemcpyHostToDevice,
      cudaMemcpy var_d_b var_b N cudaMemcpyHostToDevice,
      launch_vector_add 1 1 var_d_out var_d_a var_d_b (int N),
      cudaMemcpy var_out var_d_out N cudaMemcpyDeviceToHost]"

definition finish :: "stmt list" where
  "finish =
     [verify_loop 0,
      printf_out0,
      printf_passed,
      cudaFree var_d_a,
      cudaFree var_d_b,
      cudaFree var_d_out,
      free var_a,
      free var_b,
      free var_out]"

definition main :: "(nat \<Rightarrow> nat \<Rightarrow> fp) \<Rightarrow> (nat \<Rightarrow> nat \<Rightarrow> fp) \<Rightarrow> failure + state" where
  "main hg dg = run (compute @ finish) (initial hg dg)"

section \<open>The notebook\<close>

text \<open>
  The notebook computes on NumPy arrays and Numba device arrays. An array carries its
  shape, its element type, its strides (the number of bytes from one element to the next
  along each axis, which places the elements in memory) and its elements, listed in
  row-major order of their indices. The element types are the two floating-point types
  that the notebook transfers and computes with. The only integer array is the result of
  \<^verbatim>\<open>np.arange\<close>, kept as a list of integers.
\<close>

datatype dtype = float32 | float64

fun format_of :: "dtype \<Rightarrow> format" where
  "format_of float32 = Binary32"
| "format_of float64 = Binary64"

fun itemsize :: "dtype \<Rightarrow> nat" where
  "itemsize float32 = 4"
| "itemsize float64 = 8"

record ndarray =
  shape :: "nat list"
  dtype :: dtype
  strides :: "int list"
  elems :: "fp list"

text \<open>The strides of a freshly allocated array in row-major (C) order.\<close>

fun c_strides :: "nat \<Rightarrow> nat list \<Rightarrow> int list" where
  "c_strides sz [] = []"
| "c_strides sz (k # ks) = int (sz * prod_list ks) # c_strides sz ks"

datatype py_error = TypeError string | ValueError string

text \<open>
  Modelled from the spec: NumPy is not part of the repository. \<^verbatim>\<open>np.arange(n)\<close> is the
  array of the integers \<open>0\<close> to \<open>n - 1\<close>.
\<close>

definition arange :: "nat \<Rightarrow> int list" where
  "arange k = map int [0..<k]"

text \<open>
  Modelled from the spec: \<^verbatim>\<open>.astype(np.float32)\<close> (and \<^verbatim>\<open>dtype=np.float32\<close>) converts
  every integer to the nearest value of the element type; the result is a fresh
  one-dimensional array, its elements next to each other in memory.
\<close>

definition astype :: "int list \<Rightarrow> dtype \<Rightarrow> ndarray" where
  "astype is d =
     \<lparr>shape = [length is], dtype = d, strides = [int (itemsize d)],
      elems = map (of_int_fp (format_of d)) is\<rparr>"

text \<open>
  Modelled from the spec: the product \<^verbatim>\<open>k * x\<close> of a Python integer and an array keeps
  the shape and the element type of the array and multiplies every element by \<open>k\<close>,
  converted to that type. The result is a fresh array; for a one-dimensional \<open>x\<close>, as in
  the notebook, its elements are next to each other in memory.
\<close>

definition scalar_times :: "int \<Rightarrow> ndarray \<Rightarrow> ndarray" where
  "scalar_times k x =
     \<lparr>shape = shape x, dtype = dtype x,
      strides = c_strides (itemsize (dtype x)) (shape x),
      elems = map (fmul (format_of (dtype x)) (of_int_fp (format_of (dtype x)) k)) (elems x)\<rparr>"

text \<open>
  \<^verbatim>\<open>
  @vectorize(['float32(float32, float32)'], target='cuda')
  def add_ufunc(x, y):
      return x + y
  \<close>
  The scalar function, on \<^verbatim>\<open>float32\<close>.
\<close>

definition add_ufunc :: "fp \<Rightarrow> fp \<Rightarrow> fp" where
  "add_ufunc x y = fadd Binary32 x y"

text \<open>
  \<^verbatim>\<open>
  @vectorize(['float32(float32, float32, float32)'], target='cuda')
  def make_pulses(i, period, amplitude):
      return max(math.sin(i / period) - 0.3, 0.0) * amplitude
  \<close>
  The three arguments and the result are \<^verbatim>\<open>float32\<close>. The quotient and the sine are
  \<^verbatim>\<open>float32\<close> operations; the literals \<^verbatim>\<open>0.3\<close> and \<^verbatim>\<open>0.0\<close> are \<^verbatim>\<open>float64\<close>, so the
  difference, the maximum and the product are computed in \<^verbatim>\<open>float64\<close> and the product is
  rounded to \<^verbatim>\<open>float32\<close> on return. \<^verbatim>\<open>max(a, b)\<close> is \<open>b\<close> when \<open>b > a\<close> and \<open>a\<close> otherwise.
  Division by zero raises nothing on the device and gives an infinity or NaN.
\<close>

text \<open>
  Modelled from the spec: \<^verbatim>\<open>math.sin\<close> on a \<^verbatim>\<open>float32\<close> is the single-precision sine of
  the device library, which is not part of the repository. Its values at the special
  arguments are those of every IEEE-754 library: NaN at NaN and at the infinities, and a
  zero is returned as it is. Everywhere else the value is the library's approximation,
  a parameter \<open>approx\<close> of the model.
\<close>

definition sinf :: "(fp \<Rightarrow> fp) \<Rightarrow> fp \<Rightarrow> fp" where
  "sinf approx x =
     (case x of
        NaN \<Rightarrow> NaN
      | Infty s \<Rightarrow> NaN
      | Fin s m \<Rightarrow> if m = 0 then Fin s 0 else approx (Fin s m))"

definition py_max :: "fp \<Rightarrow> fp \<Rightarrow> fp" where
  "py_max a b = (if flt a b then b else a)"

definition make_pulses :: "(fp \<Rightarrow> fp) \<Rightarrow> fp \<Rightarrow> fp \<Rightarrow> fp \<Rightarrow> fp" where
  "make_pulses approx i period amplitude =
     fconv Binary64 Binary32
       (fmul Binary64
          (py_max (fsub Binary64 (fconv Binary32 Binary64 (sinf approx (fdiv Binary32 i period)))
                     (fconst Binary64 3 10))
                  (Fin False 0))
          (fconv Binary32 Binary64 amplitude))"

text \<open>
  \<^verbatim>\<open>
  n = 100000
  x = np.arange(n).astype(np.float32)
  y = 2 * x
  \<close>
\<close>

definition n_nb :: nat where
  "n_nb = 100000"

definition x_nb :: ndarray where
  "x_nb = astype (arange n_nb) float32"

definition y_nb :: ndarray where
  "y_nb = scalar_times 2 x_nb"

text \<open>
  \<^verbatim>\<open>
  t = np.arange(n, dtype=np.float32)
  period = n / 23
  \<close>
  \<^verbatim>\<open>period\<close> is a Python \<^verbatim>\<open>float\<close>, the correctly rounded quotient.
\<close>

definition t_nb :: ndarray where
  "t_nb = astype (arange n_nb) float32"

definition period_nb :: fp where
  "period_nb = fconst Binary64 n_nb 23"

subsection \<open>Device arrays\<close>

text \<open>
  Modelled from the spec: Numba's device memory is not part of the repository. The device
  holds buffers; a device array is a handle to a buffer together with a shape, an
  element type and strides. A fresh buffer that is not filled holds arbitrary values
  (\<open>junk\<close>).
\<close>

record gpu =
  buffers :: "nat \<Rightarrow> fp list option"
  fresh :: nat
  junk :: "nat \<Rightarrow> nat \<Rightarrow> fp"

record devarray =
  d_shape :: "nat list"
  d_dtype :: dtype
  d_strides :: "int list"
  d_buf :: nat

text \<open>What the notebook hands to \<^verbatim>\<open>cuda.to_device\<close>: an array or a Python \<^verbatim>\<open>float\<close>.\<close>

datatype pyobj = Array ndarray | PyFloat fp

text \<open>
  Modelled from the spec: a Python number handed to \<^verbatim>\<open>cuda.to_device\<close> becomes a
  zero-dimensional array first, of type \<^verbatim>\<open>float64\<close> for a Python \<^verbatim>\<open>float\<close>.
\<close>

fun as_ndarray :: "pyobj \<Rightarrow> ndarray" where
  "as_ndarray (Array a) = a"
| "as_ndarray (PyFloat v) = \<lparr>shape = [], dtype = float64, strides = [], elems = [v]\<rparr>"

text \<open>
  Modelled from the spec: the contiguity flags of NumPy. The axes of an array are given as
  pairs of an extent and a stride. An array is C-contiguous when, going from the last
  axis to the first, the stride of every axis of extent other than one is the size of an
  element times the extents of the axes after it; it is F-contiguous when the same holds
  going from the first axis to the last. An array with an axis of extent zero has no
  element and is both.
\<close>

fun walk :: "nat \<Rightarrow> (nat \<times> int) list \<Rightarrow> bool" where
  "walk sd [] = True"
| "walk sd ((k, s) # r) = (if k = 1 then walk sd r else s = int sd \<and> walk (sd * k) r)"

definition c_contig :: "nat \<Rightarrow> (nat \<times> int) list \<Rightarrow> bool" where
  "c_contig sz axes \<longleftrightarrow> 0 \<in> set (map fst axes) \<or> walk sz (rev axes)"

definition f_contig :: "nat \<Rightarrow> (nat \<times> int) list \<Rightarrow> bool" where
  "f_contig sz axes \<longleftrightarrow> 0 \<in> set (map fst axes) \<or> walk sz axes"

definition c_contiguous :: "ndarray \<Rightarrow> bool" where
  "c_contiguous a = c_contig (itemsize (dtype a)) (zip (shape a) (strides a))"

definition f_contiguous :: "ndarray \<Rightarrow> bool" where
  "f_contiguous a = f_contig (itemsize (dtype a)) (zip (shape a) (strides a))"

text \<open>
  Modelled from the spec: a host array can be transferred only as one region of memory.
  Numba's \<^verbatim>\<open>array_core\<close> drops the axes along which an array repeats itself (stride
  zero, as in a broadcast array), unless the array has no axis or no element, and
  \<^verbatim>\<open>sentry_contiguous\<close> raises \<^verbatim>\<open>ValueError\<close> when what is left is neither C-contiguous nor
  F-contiguous, as for a view that takes every other element of an array.
\<close>

definition array_core :: "(nat \<times> int) list \<Rightarrow> (nat \<times> int) list" where
  "array_core axes =
     (if axes = [] \<or> 0 \<in> set (map fst axes) then axes
      else filter (\<lambda>(k, s). s \<noteq> 0) axes)"

definition errmsg_contiguous_buffer :: string where
  "errmsg_contiguous_buffer =
     ''Array contains non-contiguous buffer and cannot be transferred as a single memory region. Please ensure contiguous buffer with numpy .ascontiguousarray()''"

definition sentry_contiguous :: "ndarray \<Rightarrow> py_error + unit" where
  "sentry_contiguous a =
     (let core = array_core (zip (shape a) (strides a))
      in if c_contig (itemsize (dtype a)) core \<or> f_contig (itemsize (dtype a)) core
         then Inr ()
         else Inl (ValueError errmsg_contiguous_buffer))"

text \<open>
  Modelled from the spec: \<^verbatim>\<open>cuda.to_device\<close> is the host-to-device transfer primitive: it
  checks that the array can be transferred, allocates a device buffer, copies the
  elements into it and returns the device array, which has the shape, the element type
  and the strides of the host array.
\<close>

definition to_device :: "pyobj \<Rightarrow> gpu \<Rightarrow> py_error + devarray \<times> gpu" where
  "to_device obj g =
     (let a = as_ndarray obj
      in case sentry_contiguous a of
           Inl e \<Rightarrow> Inl e
         | Inr u \<Rightarrow>
             Inr (\<lparr>d_shape = shape a, d_dtype = dtype a, d_strides = strides a, d_buf = fresh g\<rparr>,
                  g\<lparr>buffers := (buffers g)(fresh g \<mapsto> elems a), fresh := Suc (fresh g)\<rparr>))"

text \<open>
  Modelled from the spec: \<^verbatim>\<open>cuda.device_array\<close> is the device-side allocator; it does not
  initialise the contents. The array is laid out in row-major order.
\<close>

definition device_array :: "nat list \<Rightarrow> dtype \<Rightarrow> gpu \<Rightarrow> devarray \<times> gpu" where
  "device_array sh d g =
     (\<lparr>d_shape = sh, d_dtype = d, d_strides = c_strides (itemsize d) sh, d_buf = fresh g\<rparr>,
      g\<lparr>buffers := (buffers g)(fresh g \<mapsto> map (junk g (fresh g)) [0..<prod_list sh]),
        fresh := Suc (fresh g)\<rparr>)"

text \<open>
  Modelled from the spec: \<^verbatim>\<open>copy_to_host\<close> is the device-to-host copy method of a device
  array: it returns a host array with the shape, the element type, the strides and the
  elements of the device array.
\<close>

definition copy_to_host :: "devarray \<Rightarrow> gpu \<Rightarrow> py_error + ndarray" where
  "copy_to_host d g =
     (case buffers g (d_buf d) of
        None \<Rightarrow> Inl (ValueError ''invalid device pointer'')
      | Some xs \<Rightarrow>
          Inr \<lparr>shape = d_shape d, dtype = d_dtype d, strides = d_strides d, elems = xs\<rparr>)"

subsection \<open>Calling a vectorized function\<close>

text \<open>
  Modelled from the spec: the dispatch of a vectorized function is Numba's; the notebook
  records its steps in the traceback of the last cell (\<^verbatim>\<open>call\<close>, \<^verbatim>\<open>get_arguments\<close>,
  \<^verbatim>\<open>_fill_arrays\<close>, \<^verbatim>\<open>_fill_argtypes\<close>, \<^verbatim>\<open>_resolve_signature\<close>) and its message:
  array arguments must have exactly the types of a compiled signature, as with
  \<^verbatim>\<open>casting='no'\<close>; Python scalars are converted to the type the signature asks for.
\<close>

datatype arg = HostArg ndarray | DeviceArg devarray | ScalarArg fp

record ufunc =
  typemap :: "(dtype list \<times> dtype) list"
  scalar_fn :: "fp list \<Rightarrow> fp"

definition no_matching_version :: string where
  "no_matching_version =
     ''No matching version.  GPU ufunc requires array arguments to have the exact types.  This behaves like regular ufunc with casting='' @ [CHR 39] @ ''no'' @ [CHR 39] @ ''.''"

definition ambiguous_signature :: string where
  "ambiguous_signature =
     ''Failed to resolve ufunc due to ambiguous signature. Too many untyped scalars. Use numpy dtype object to type tagged.''"

text \<open>Modelled from the spec: the element type of an array argument; none for a scalar.\<close>

fun argtype :: "arg \<Rightarrow> dtype option" where
  "argtype (HostArg a) = Some (dtype a)"
| "argtype (DeviceArg d) = Some (d_dtype d)"
| "argtype (ScalarArg v) = None"

text \<open>Modelled from the spec: a signature matches when every array argument has exactly its type.\<close>

definition matches :: "dtype list \<Rightarrow> dtype option list \<Rightarrow> bool" where
  "matches formals actuals \<longleftrightarrow>
     length formals = length actuals \<and>
     list_all (\<lambda>(formal, actual). actual = None \<or> actual = Some formal) (zip formals actuals)"

text \<open>Modelled from the spec: \<^verbatim>\<open>_resolve_signature\<close>.\<close>

definition resolve_signature :: "ufunc \<Rightarrow> arg list \<Rightarrow> py_error + dtype list \<times> dtype" where
  "resolve_signature u args =
     (case filter (\<lambda>sg. matches (fst sg) (map argtype args)) (typemap u) of
        [] \<Rightarrow> Inl (TypeError no_matching_version)
      | [sg] \<Rightarrow> Inr sg
      | sg # sg' # sgs \<Rightarrow> Inl (TypeError ambiguous_signature))"

text \<open>
  Modelled from the spec: the values an argument contributes to an elementwise call over
  \<open>k\<close> elements. An array of \<open>k\<close> elements contributes its elements, read from the device
  for a device array and transferred to it first for a host array; a single element or a
  scalar is repeated.
\<close>

definition spread :: "nat \<Rightarrow> fp list \<Rightarrow> py_error + fp list" where
  "spread k xs =
     (if length xs = k then Inr xs
      else if length xs = 1 then Inr (replicate k (xs ! 0))
      else Inl (ValueError ''operands could not be broadcast together''))"

fun arg_values :: "gpu \<Rightarrow> nat \<Rightarrow> dtype \<Rightarrow> arg \<Rightarrow> py_error + fp list" where
  "arg_values g k formal (HostArg a) =
     (case sentry_contiguous a of
        Inl e \<Rightarrow> Inl e
      | Inr u \<Rightarrow> spread k (elems a))"
| "arg_values g k formal (DeviceArg d) =
     (case buffers g (d_buf d) of
        None \<Rightarrow> Inl (ValueError ''invalid device pointer'')
      | Some xs \<Rightarrow> spread k xs)"
| "arg_values g k formal (ScalarArg v) =
     Inr (replicate k (fconv Binary64 (format_of formal) v))"

fun all_values :: "gpu \<Rightarrow> nat \<Rightarrow> dtype list \<Rightarrow> arg list \<Rightarrow> py_error + fp list list" where
  "all_values g k (f # fs) (a # as) =
     (case arg_values g k f a of
        Inl e \<Rightarrow> Inl e
      | Inr xs \<Rightarrow> (case all_values g k fs as of Inl e \<Rightarrow> Inl e | Inr xss \<Rightarrow> Inr (xs # xss)))"
| "all_values g k fs as = Inr []"

text \<open>
  Modelled from the spec: a call \<^verbatim>\<open>f(args, out=out)\<close> of a vectorized function resolves the
  signature, then applies the scalar function to the arguments of every element and
  stores the results in the buffer of \<open>out\<close> (which the notebook always allocates with
  the result type).
\<close>

definition ufunc_call :: "ufunc \<Rightarrow> arg list \<Rightarrow> devarray \<Rightarrow> gpu \<Rightarrow> py_error + gpu" where
  "ufunc_call u args out g =
     (case resolve_signature u args of
        Inl e \<Rightarrow> Inl e
      | Inr sg \<Rightarrow>
          (case all_values g (prod_list (d_shape out)) (fst sg) args of
             Inl e \<Rightarrow> Inl e
           | Inr xss \<Rightarrow>
               Inr (g\<lparr>buffers := (buffers g)(d_buf out \<mapsto>
                      map (\<lambda>j. scalar_fn u (map (\<lambda>xs. xs ! j) xss))
                        [0..<prod_list (d_shape out)])\<rparr>)))"

text \<open>The two vectorized functions of the notebook.\<close>

definition add_ufunc_gpu :: ufunc where
  "add_ufunc_gpu =
     \<lparr>typemap = [([float32, float32], float32)],
      scalar_fn = (\<lambda>vs. add_ufunc (vs ! 0) (vs ! 1))\<rparr>"

definition make_pulses_gpu :: "(fp \<Rightarrow> fp) \<Rightarrow> ufunc" where
  "make_pulses_gpu approx =
     \<lparr>typemap = [([float32, float32, float32], float32)],
      scalar_fn = (\<lambda>vs. make_pulses approx (vs ! 0) (vs ! 1) (vs ! 2))\<rparr>"

text \<open>
  \<^verbatim>\<open>
  x_device = cuda.to_device(x)
  y_device = cuda.to_device(y)
  out_device = cuda.device_array(shape=(n,), dtype=np.float32)
  add_ufunc(x_device, y_device, out=out_device)
  out_host = out_device.copy_to_host()
  \<close>
  The value of \<^verbatim>\<open>out_host\<close>, from any state of the device.
\<close>

definition out_host :: "gpu \<Rightarrow> py_error + ndarray" where
  "out_host g =
     (case to_device (Array x_nb) g of
        Inl e \<Rightarrow> Inl e
      | Inr (x_device, g1) \<Rightarrow>
     (case to_device (Array y_nb) g1 of
        Inl e \<Rightarrow> Inl e
      | Inr (y_device, g2) \<Rightarrow>
     (let (out_device, g3) = device_array [n_nb] float32 g2
      in case ufunc_call add_ufunc_gpu [DeviceArg x_device, DeviceArg y_device] out_device g3 of
           Inl e \<Rightarrow> Inl e
         | Inr g4 \<Rightarrow> copy_to_host out_device g4)))"

text \<open>
  \<^verbatim>\<open>
  pulse_device = cuda.device_array(shape=(n,), dtype=np.float32)
  t_device = cuda.to_device(t)
  period_device = cuda.to_device(period)
  amp_device = cuda.to_device(100.0)
  make_pulses(t_device, period_device, amp_device, out=pulse_device)
  \<close>
  The last cell; nothing in it catches an exception, so the cell ends with whatever the
  call raises.
\<close>

definition last_cell :: "(fp \<Rightarrow> fp) \<Rightarrow> gpu \<Rightarrow> py_error + gpu" where
  "last_cell approx g =
     (let (pulse_device, g1) = device_array [n_nb] float32 g
      in case to_device (Array t_nb) g1 of
           Inl e \<Rightarrow> Inl e
         | Inr (t_device, g2) \<Rightarrow>
        (case to_device (PyFloat period_nb) g2 of
           Inl e \<Rightarrow> Inl e
         | Inr (period_device, g3) \<Rightarrow>
        (case to_device (PyFloat (fconst Binary64 100 1)) g3 of
           Inl e \<Rightarrow> Inl e
         | Inr (amp_device, g4) \<Rightarrow>
             ufunc_call (make_pulses_gpu approx)
               [DeviceArg t_device, DeviceArg period_device, DeviceArg amp_device]
               pulse_device g4)))"

section \<open>Auxiliary notions for the statements\<close>

text \<open>The elementwise \<^verbatim>\<open>float\<close> sums of two blocks.\<close>

definition pairwise_sum :: "fp list \<Rightarrow> fp list \<Rightarrow> fp list" where
  "pairwise_sum xs ys = map (\<lambda>(x, y). fadd Binary32 x y) (zip xs ys)"

text \<open>
  The state of the process after \<open>compute\<close>, written out: the three host blocks and
  the three device blocks, the device log and the calls made so far.
\<close>

definition computed :: "(nat \<Rightarrow> nat \<Rightarrow> fp) \<Rightarrow> (nat \<Rightarrow> nat \<Rightarrow> fp) \<Rightarrow> state" where
  "computed hg dg =
     \<lparr>vars = (\<lambda>v. (0, 0))(var_a := (0, 0), var_b := (1, 0), var_out := (2, 0),
         var_d_a := (0, 0), var_d_b := (1, 0), var_d_out := (2, 0)),
      hmem = [0 \<mapsto> replicate N lit_1_0f, 1 \<mapsto> replicate N lit_2_0f,
              2 \<mapsto> replicate N (fadd Binary32 lit_1_0f lit_2_0f)],
      dev = \<lparr>dmem = [0 \<mapsto> replicate N lit_1_0f, 1 \<mapsto> replicate N lit_2_0f,
              2 \<mapsto> replicate N (fadd Binary32 lit_1_0f lit_2_0f)],
             klog = ThreadStart # map Write [0..<N]\<rparr>,
      hnext = 3, dnext = 3, hgarbage = hg, dgarbage = dg,
      calls = [Call_malloc var_a N, Call_malloc var_b N, Call_malloc var_out N,
               Call_cudaMalloc var_d_a N, Call_cudaMalloc var_d_b N, Call_cudaMalloc var_d_out N,
               Call_cudaMemcpy var_d_a var_a N cudaMemcpyHostToDevice,
               Call_cudaMemcpy var_d_b var_b N cudaMemcpyHostToDevice,
               Call_launch 1 1,
               Call_cudaMemcpy var_out var_d_out N cudaMemcpyDeviceToHost],
      stdout = []\<rparr>"

text \<open>The state in which \<open>main\<close> ends when every assertion holds.\<close>

definition finished :: "(nat \<Rightarrow> nat \<Rightarrow> fp) \<Rightarrow> (nat \<Rightarrow> nat \<Rightarrow> fp) \<Rightarrow> state" where
  "finished hg dg =
     (computed hg dg)
       \<lparr>hmem := Map.empty,
        dev := \<lparr>dmem = Map.empty, klog = ThreadStart # map Write [0..<N]\<rparr>,
        calls := calls (computed hg dg) @ map Call_assert [0..<N] @
          [Call_printf, Call_printf,
           Call_cudaFree var_d_a, Call_cudaFree var_d_b, Call_cudaFree var_d_out,
           Call_free var_a, Call_free var_b, Call_free var_out],
        stdout := [Formatted ''out[0] = %f'' (fconv Binary32 Binary64 (fadd Binary32 lit_1_0f lit_2_0f)),
                   Text ''PASSED'']\<rparr>"

text \<open>
  The state of \<open>main\<close> after its first \<open>k\<close> statements, or the failure that ended it
  before. The statements are numbered as in \<open>compute\<close> and \<open>finish\<close>: the three host
  allocations are statements 1 to 3, the initialisation loop is statement 4, the three
  device allocations are 5 to 7, the two copies to the device 8 and 9, the launch 10, the
  copy back 11, the verification loop 12, the two prints 13 and 14, the three
  \<^verbatim>\<open>cudaFree\<close> 15 to 17 and the three \<^verbatim>\<open>free\<close> 18 to 20.
\<close>

definition after :: "nat \<Rightarrow> (nat \<Rightarrow> nat \<Rightarrow> fp) \<Rightarrow> (nat \<Rightarrow> nat \<Rightarrow> fp) \<Rightarrow> failure + state" where
  "after k hg dg = run (take k (compute @ finish)) (initial hg dg)"

text \<open>A small device state: three blocks of two cells.\<close>

definition tiny :: kstate where
  "tiny = \<lparr>dmem = [0 \<mapsto> [lit_1_0f, lit_1_0f], 1 \<mapsto> [lit_2_0f, lit_2_0f], 2 \<mapsto> [NaN, NaN]],
           klog = []\<rparr>"

text \<open>
  What the specification calls an output element that does not deviate from the expected
  sum by more than \<open>1e-6\<close>: the element \<open>z\<close> is a number and its distance from the real
  sum of \<open>x\<close> and \<open>y\<close> is at most \<open>1e-6\<close>.
\<close>

definition within_tolerance :: "fp \<Rightarrow> fp \<Rightarrow> fp \<Rightarrow> bool" where
  "within_tolerance z x y \<longleftrightarrow>
     is_finite z \<and> \<bar>valof Binary32 z - (valof Binary32 x + valof Binary32 y)\<bar> \<le> 1 / 10 ^ 6"

text \<open>A binary32 value of magnitude at least \<open>1.0\<close>.\<close>

definition at_least_one :: "fp \<Rightarrow> bool" where
  "at_least_one y = (case y of Fin t k \<Rightarrow> 2 ^ 149 \<le> k | Infty t \<Rightarrow> True | NaN \<Rightarrow> False)"

text \<open>The state \<open>s\<close> with the host buffer \<open>out\<close> holding the values \<open>zs\<close>.\<close>

definition with_out :: "state \<Rightarrow> fp list \<Rightarrow> state" where
  "with_out s zs = s\<lparr>hmem := (hmem s)(fst (vars s var_out) \<mapsto> zs)\<rparr>"

text \<open>The \<^verbatim>\<open>float32\<close> values \<open>0, 3, 6, \<dots>\<close>, one for every index below \<open>n\<close>.\<close>

definition sum_elems :: "fp list" where
  "sum_elems = map (\<lambda>i. Fin False (3 * i * 2 ^ 149)) [0..<n_nb]"

text \<open>
  A host array as NumPy makes them: as many strides as axes, and as many elements as the
  shape says.
\<close>

definition well_formed :: "ndarray \<Rightarrow> bool" where
  "well_formed a \<longleftrightarrow>
     length (strides a) = length (shape a) \<and> length (elems a) = prod_list (shape a)"

text \<open>
  Three small host arrays: a two-by-two \<^verbatim>\<open>float32\<close> array in column-major order, a
  one-dimensional \<^verbatim>\<open>float64\<close> array, and the view \<^verbatim>\<open>base[::2]\<close> of a four-element
  \<^verbatim>\<open>float32\<close> array \<open>base\<close> of ones, which takes every other element.
\<close>

definition f_order_2x2 :: ndarray where
  "f_order_2x2 =
     \<lparr>shape = [2, 2], dtype = float32, strides = [4, 8],
      elems = [lit_1_0f, lit_2_0f, lit_2_0f, lit_1_0f]\<rparr>"

definition three_doubles :: ndarray where
  "three_doubles =
     \<lparr>shape = [3], dtype = float64, strides = [8],
      elems = [Fin False 0, fconst Binary64 3 10, NaN]\<rparr>"

definition every_other :: ndarray where
  "every_other =
     \<lparr>shape = [2], dtype = float32, strides = [8], elems = [lit_1_0f, lit_1_0f]\<rparr>"

text \<open>
  The \<^verbatim>\<open>float64\<close> literals \<open>0.3\<close> and \<open>0.7\<close> as magnitudes, in units of \<open>2 ^ -1074\<close>.
\<close>

definition units_0_3 :: nat where
  "units_0_3 = 5404319552844595 * 2 ^ 1020"

definition units_0_7 :: nat where
  "units_0_7 = 6305039478318694 * 2 ^ 1021"



text \<open>A device with no buffer allocated.\<close>

definition gpu0 :: gpu where
  "gpu0 = \<lparr>buffers = Map.empty, fresh = 0, junk = (\<lambda>k j. NaN)\<rparr>"

section \<open>Facts about rounding\<close>

lemma bit_length_le_iff: "bit_length n \<le> k \<longleftrightarrow> n < 2 ^ k"
proof (induction n arbitrary: k rule: bit_length.induct)
  case (1 n)
  show ?case
  proof (cases "n = 0")
    case True
    then show ?thesis by (simp add: bit_length.simps)
  next
    case False
    show ?thesis
    proof (cases k)
      case 0
      with False show ?thesis by (simp add: bit_length.simps)
    next
      case (Suc j)
      have "bit_length n \<le> Suc j \<longleftrightarrow> bit_length (n div 2) \<le> j"
        using False by (subst bit_length.simps) simp
      also have "\<dots> \<longleftrightarrow> n div 2 < 2 ^ j"
        using "1.IH" [OF False] .
      also have "\<dots> \<longleftrightarrow> n < 2 ^ Suc j"
        by auto
      finally show ?thesis using Suc by simp
    qed
  qed
qed

lemma bit_length_zero [simp]: "bit_length 0 = 0"
  by (simp add: bit_length.simps)

lemma bit_length_eqI: "n < 2 ^ k \<Longrightarrow> 2 ^ k \<le> 2 * n \<Longrightarrow> bit_length n = k"
proof -
  assume a: "n < 2 ^ k" and b: "2 ^ k \<le> 2 * n"
  from a have le: "bit_length n \<le> k" by (simp add: bit_length_le_iff)
  have "\<not> bit_length n \<le> k - 1"
  proof (cases k)
    case 0
    with a b show ?thesis by simp
  next
    case (Suc j)
    with b show ?thesis by (simp add: bit_length_le_iff)
  qed
  moreover from a b have "k \<noteq> 0" by (cases k) auto
  ultimately show ?thesis using le by arith
qed

lemma bit_length_lower: "0 < n \<Longrightarrow> 2 ^ (bit_length n - 1) \<le> n"
proof -
  assume n: "0 < n"
  have "\<not> bit_length n \<le> bit_length n - 1"
  proof -
    from n have "bit_length n \<noteq> 0" by (subst bit_length.simps) simp
    then show ?thesis by arith
  qed
  then show ?thesis by (simp add: bit_length_le_iff)
qed

lemma bit_length_upper: "n < 2 ^ bit_length n"
  using bit_length_le_iff [of n "bit_length n"] by simp

lemma bit_length_mono: "m \<le> n \<Longrightarrow> bit_length m \<le> bit_length n"
proof -
  assume "m \<le> n"
  also have "n < 2 ^ bit_length n" by (rule bit_length_upper)
  finally show ?thesis by (simp add: bit_length_le_iff)
qed

lemma bit_length_div_eqI:
  "0 < d \<Longrightarrow> 0 < k \<Longrightarrow> 2 ^ k * d \<le> 2 * n \<Longrightarrow> n < 2 ^ k * d \<Longrightarrow>
   bit_length (n div d) = k"
proof (rule bit_length_eqI)
  assume d: "0 < d" and k: "0 < k" and lo: "2 ^ k * d \<le> 2 * n" and hi: "n < 2 ^ k * d"
  from d hi show "n div d < 2 ^ k"
    by (simp add: div_less_iff_less_mult)
  show "2 ^ k \<le> 2 * (n div d)"
  proof (cases k)
    case 0
    with k show ?thesis by simp
  next
    case (Suc j)
    with lo have "2 ^ j * d \<le> n" by simp
    with d have "2 ^ j \<le> n div d"
      by (simp add: less_eq_div_iff_mult_less_eq)
    with Suc show ?thesis by simp
  qed
qed

lemma bit_length_mult_pow: "0 < m \<Longrightarrow> bit_length (m * 2 ^ k) = bit_length m + k"
proof (rule bit_length_eqI)
  assume m: "0 < m"
  have "m < 2 ^ bit_length m" by (rule bit_length_upper)
  then show "m * 2 ^ k < 2 ^ (bit_length m + k)"
    by (simp add: power_add)
  from m have pos: "bit_length m \<noteq> 0" by (subst bit_length.simps) simp
  from bit_length_lower [OF m] have "2 * 2 ^ (bit_length m - 1) \<le> 2 * m" by simp
  also have "2 * 2 ^ (bit_length m - 1) = (2::nat) ^ bit_length m"
    using pos by (cases "bit_length m") simp_all
  finally show "2 ^ (bit_length m + k) \<le> 2 * (m * 2 ^ k)"
    by (simp add: power_add)
qed

lemma rne_div_exact: "0 < d \<Longrightarrow> rne_div (m * d) d = m"
  by (simp add: rne_div_def)

lemma rne_div_cancel: "0 < c \<Longrightarrow> rne_div (n * c) (d * c) = rne_div n d"
  by (cases "d = 0") (simp_all add: rne_div_def Let_def)

lemma round_mag_exact:
  assumes "0 < d" and "bit_length m \<le> p \<or> 2 ^ (bit_length m - p) dvd m"
  shows "round_mag p (m * d) d = m"
proof (cases "bit_length m \<le> p")
  case True
  with assms(1) show ?thesis by (simp add: round_mag_def rne_div_exact)
next
  case False
  with assms(2) obtain q where q: "m = q * 2 ^ (bit_length m - p)"
    by (auto simp: dvd_def mult.commute)
  have "rne_div (m * d) (d * 2 ^ (bit_length m - p)) = q"
  proof -
    have "m * d = q * (d * 2 ^ (bit_length m - p))"
      by (subst q) (simp add: mult_ac)
    moreover have "0 < d * 2 ^ (bit_length m - p)" using assms(1) by simp
    ultimately show ?thesis by (simp only: rne_div_exact)
  qed
  with False assms(1) q show ?thesis by (simp add: round_mag_def)
qed

lemma fround_exact: "representable f m \<Longrightarrow> 0 < d \<Longrightarrow> fround f s (m * d) d = Fin s m"
  by (simp add: fround_def representable_def round_mag_exact)

lemma representable_widen:
  assumes "representable Binary32 m"
  shows "representable Binary64 (m * 2 ^ 925)"
proof (cases "m = 0")
  case True
  then show ?thesis by (simp add: representable_def)
next
  case False
  then have bl: "bit_length (m * 2 ^ 925) = bit_length m + 925"
    by (simp only: bit_length_mult_pow neq0_conv)
  from assms have "m < 2 ^ 277" by (simp add: representable_def)
  then have "m * 2 ^ 925 < 2 ^ 277 * (2::nat) ^ 925" by simp
  also have "\<dots> \<le> 2 ^ 2098" by (simp add: power_add [symmetric])
  finally have small: "m * 2 ^ 925 < 2 ^ maxbits Binary64" by simp
  have "2 ^ (bit_length m + 925 - 53) dvd m * 2 ^ 925"
  proof (cases "bit_length m \<le> 24")
    case True
    then have "(2::nat) ^ (bit_length m + 925 - 53) dvd 2 ^ 925"
      by (intro le_imp_power_dvd) simp
    then show ?thesis by (rule dvd_mult)
  next
    case False
    with assms have d: "2 ^ (bit_length m - 24) dvd m" by (simp add: representable_def)
    have "bit_length m + 925 - 53 = (bit_length m - 24) + 896"
      using False by simp
    then have "(2::nat) ^ (bit_length m + 925 - 53) = 2 ^ (bit_length m - 24) * 2 ^ 896"
      by (simp only: power_add)
    moreover have "(2::nat) ^ 896 dvd 2 ^ 925"
      by (intro le_imp_power_dvd) simp
    ultimately show ?thesis using d by (simp add: mult_dvd_mono)
  qed
  with small bl show ?thesis by (simp add: representable_def)
qed

lemma fconv_exact:
  assumes "representable Binary32 m"
  shows "fconv Binary32 Binary64 (Fin s m) = Fin s (m * 2 ^ 925)"
proof -
  have "m * 2 ^ scale Binary64 = (m * 2 ^ 925) * 2 ^ scale Binary32"
    by (simp add: power_add [symmetric])
  then have "fconv Binary32 Binary64 (Fin s m) =
      fround Binary64 s ((m * 2 ^ 925) * 2 ^ scale Binary32) (2 ^ scale Binary32)"
    by (simp only: fconv.simps)
  also have "\<dots> = Fin s (m * 2 ^ 925)"
    by (rule fround_exact [OF representable_widen [OF assms]]) simp
  finally show ?thesis .
qed

lemma max_err_value: "MAX_ERR = Fin False (4722366482869645 * 2 ^ 1002)"
proof -
  have bl: "bit_length (2 ^ 1074 div 1000000) = 1055"
    by (rule bit_length_div_eqI) simp_all
  have "rne_div (2 ^ 72 * 2 ^ 1002) (1000000 * 2 ^ 1002) = rne_div (2 ^ 72) 1000000"
    by (rule rne_div_cancel) simp
  also have "\<dots> = 4722366482869645"
    by (simp add: rne_div_def Let_def)
  finally have "rne_div (2 ^ 1074) (1000000 * 2 ^ 1002) = 4722366482869645"
    by (simp add: power_add [symmetric])
  then have "round_mag 53 (2 ^ 1074) 1000000 = 4722366482869645 * 2 ^ 1002"
    using bl by (simp add: round_mag_def del: power_numeral)
  moreover have "(4722366482869645::nat) * 2 ^ 1002 < 2 ^ 2098"
    by simp
  ultimately show ?thesis
    by (simp add: MAX_ERR_def fconst_def fround_def del: power_numeral)
qed

lemmas fp_eval = fconst_def fround_def round_mag_def rne_div_def bit_length.simps Let_def
  signed_def fsub_def

section \<open>Facts about memory and the kernel loop\<close>

lemma store_cell_other:
  "store h p i v = Inr h' \<Longrightarrow> c \<noteq> (fst p, snd p + i) \<Longrightarrow> cell h' c = cell h c"
  by (cases c) (auto simp: store_def cell_def split: option.splits if_splits)

lemma store_allocated:
  "store h p i v = Inr h' \<Longrightarrow> allocated h' q n = allocated h q n"
  by (auto simp: store_def allocated_def split: option.splits if_splits)

lemma load_ok:
  "allocated h p n \<Longrightarrow> i < n \<Longrightarrow> \<exists>x. load h p i = Inr x"
  by (auto simp: load_def allocated_def split: option.splits)

lemma store_ok:
  "allocated h p n \<Longrightarrow> i < n \<Longrightarrow> \<exists>h'. store h p i v = Inr h'"
  by (auto simp: store_def allocated_def split: option.splits)

lemma load_cell:
  "load h p i = (case cell h (fst p, snd p + i) of None \<Rightarrow> Inl Segfault | Some x \<Rightarrow> Inr x)"
  by (auto simp: load_def cell_def split: option.splits)

lemma vector_add_loop_frame:
  "vector_add_loop out a b n i s = Inr s' \<Longrightarrow> 0 \<le> i \<Longrightarrow> c \<notin> in_range out (nat n)
   \<Longrightarrow> cell (dmem s') c = cell (dmem s) c"
proof (induction out a b n i s rule: vector_add_loop.induct)
  case (1 out a b n i s)
  show ?case
  proof (cases "i < n")
    case False
    with "1.prems" show ?thesis by (simp add: vector_add_loop.simps)
  next
    case True
    from True "1.prems"(1) obtain x y h where
      x: "load (dmem s) a (nat i) = Inr x" and
      y: "load (dmem s) b (nat i) = Inr y" and
      h: "store (dmem s) out (nat i) (fadd Binary32 x y) = Inr h" and
      r: "vector_add_loop out a b n (i + 1) (s\<lparr>dmem := h, klog := klog s @ [Write (nat i)]\<rparr>) = Inr s'"
      by (subst (asm) vector_add_loop.simps) (auto split: sum.splits)
    from True "1.prems"(2) have "(fst out, snd out + nat i) \<in> in_range out (nat n)"
      by (auto simp: in_range_def)
    with "1.prems"(3) have ne: "c \<noteq> (fst out, snd out + nat i)" by auto
    have "cell (dmem s') c = cell h c"
      using "1.IH" [OF True x y h r] "1.prems"(2,3) by simp
    also have "\<dots> = cell (dmem s) c" by (rule store_cell_other [OF h ne])
    finally show ?thesis .
  qed
qed

lemma vector_add_loop_total:
  "allocated (dmem s) out (nat n) \<Longrightarrow> allocated (dmem s) a (nat n) \<Longrightarrow>
   allocated (dmem s) b (nat n) \<Longrightarrow> 0 \<le> i \<Longrightarrow> \<exists>s'. vector_add_loop out a b n i s = Inr s'"
proof (induction out a b n i s rule: vector_add_loop.induct)
  case (1 out a b n i s)
  show ?case
  proof (cases "i < n")
    case False
    then show ?thesis by (simp add: vector_add_loop.simps)
  next
    case True
    with "1.prems" have lt: "nat i < nat n" by simp
    obtain x where x: "load (dmem s) a (nat i) = Inr x"
      using load_ok [OF "1.prems"(2) lt] by blast
    obtain y where y: "load (dmem s) b (nat i) = Inr y"
      using load_ok [OF "1.prems"(3) lt] by blast
    obtain h where h: "store (dmem s) out (nat i) (fadd Binary32 x y) = Inr h"
      using store_ok [OF "1.prems"(1) lt] by blast
    have "\<exists>s'. vector_add_loop out a b n (i + 1) (s\<lparr>dmem := h, klog := klog s @ [Write (nat i)]\<rparr>) = Inr s'"
      using "1.IH" [OF True x y h] "1.prems" by (simp add: store_allocated [OF h])
    then show ?thesis
      using True x y h by (subst vector_add_loop.simps) simp
  qed
qed

section \<open>Running the host program\<close>


lemma f32_one: "lit_1_0f = Fin False (2 ^ 149)"
  by (simp add: lit_1_0f_def fp_eval)

lemma f32_two: "lit_2_0f = Fin False (2 ^ 150)"
  by (simp add: lit_2_0f_def fp_eval)

lemma f32_one_plus_two: "fadd Binary32 lit_1_0f lit_2_0f = Fin False (3 * 2 ^ 149)"
  by (simp add: f32_one f32_two fp_eval)

lemma fun_upd_cover:
  "a \<noteq> b \<Longrightarrow> (h(a \<mapsto> x, b \<mapsto> y))(a \<mapsto> x', b \<mapsto> y') = h(a \<mapsto> x', b \<mapsto> y')"
  by (rule ext) simp

lemma store_Some:
  "h (fst p) = Some xs \<Longrightarrow> snd p + i < length xs \<Longrightarrow>
   store h p i v = Inr (h(fst p \<mapsto> xs[snd p + i := v]))"
  by (simp add: store_def)

lemma load_Some:
  "h (fst p) = Some xs \<Longrightarrow> snd p + i < length xs \<Longrightarrow> load h p i = Inr (xs ! (snd p + i))"
  by (simp add: load_def)

lemma replicate_drop_update:
  "i < length xs \<Longrightarrow>
   (replicate i v @ drop i xs)[i := v] = replicate (Suc i) v @ drop (Suc i) xs"
proof -
  assume i: "i < length xs"
  then have "drop i xs = xs ! i # drop (Suc i) xs"
    by (simp add: Cons_nth_drop_Suc)
  then have "(replicate i v @ drop i xs)[i := v] = replicate i v @ v # drop (Suc i) xs"
    by (simp add: list_update_append)
  also have "\<dots> = replicate (Suc i) v @ drop (Suc i) xs"
    by (simp add: replicate_append_same)
  finally show ?thesis .
qed

lemma init_loop_from:
  assumes "vars s var_a = (ba, 0)" and "vars s var_b = (bb, 0)" and "ba \<noteq> bb"
    and "hmem s ba = Some (replicate i lit_1_0f @ drop i xs)"
    and "hmem s bb = Some (replicate i lit_2_0f @ drop i ys)"
    and "length xs = N" and "length ys = N" and "i \<le> N"
  shows "init_loop i s =
    Inr (s\<lparr>hmem := (hmem s)(ba \<mapsto> replicate N lit_1_0f, bb \<mapsto> replicate N lit_2_0f)\<rparr>)"
  using assms
proof (induction i s rule: init_loop.induct)
  case (1 i s)
  show ?case
  proof (cases "i < N")
    case False
    with "1.prems" have "i = N" by simp
    have eq: "(hmem s)(ba \<mapsto> replicate N lit_1_0f, bb \<mapsto> replicate N lit_2_0f) = hmem s"
      using "1.prems" \<open>i = N\<close> by (auto simp: fun_eq_iff)
    from False have "init_loop i s = Inr s"
      by (subst init_loop.simps) simp
    then show ?thesis
      unfolding eq by simp
  next
    case True
    let ?h = "(hmem s)(ba \<mapsto> replicate (Suc i) lit_1_0f @ drop (Suc i) xs)"
    let ?h' = "?h(bb \<mapsto> replicate (Suc i) lit_2_0f @ drop (Suc i) ys)"
    have sa: "store (hmem s) (vars s var_a) i lit_1_0f = Inr ?h"
      using "1.prems" True
      by (subst store_Some [where xs = "replicate i lit_1_0f @ drop i xs"])
         (simp_all add: replicate_drop_update del: replicate_Suc)
    have sb: "store ?h (vars s var_b) i lit_2_0f = Inr ?h'"
      using "1.prems" True
      by (subst store_Some [where xs = "replicate i lit_2_0f @ drop i ys"])
         (simp_all add: replicate_drop_update del: replicate_Suc)
    have "init_loop (i + 1) (s\<lparr>hmem := ?h'\<rparr>) =
      Inr (s\<lparr>hmem := ?h'\<rparr>\<lparr>hmem := (hmem (s\<lparr>hmem := ?h'\<rparr>))(ba \<mapsto> replicate N lit_1_0f,
                              bb \<mapsto> replicate N lit_2_0f)\<rparr>)"
      using "1.prems" True
      by (intro "1.IH" [OF True sa sb]) (simp_all del: replicate_Suc)
    then show ?thesis
      using True sa sb "1.prems"(3)
      by (subst init_loop.simps) (simp add: fun_upd_cover del: replicate_Suc)
  qed
qed

lemma init_loop_closed:
  assumes "snd (vars s var_a) = 0" and "snd (vars s var_b) = 0"
    and "fst (vars s var_a) \<noteq> fst (vars s var_b)"
    and "map_option length (hmem s (fst (vars s var_a))) = Some N"
    and "map_option length (hmem s (fst (vars s var_b))) = Some N"
  shows "init_loop 0 s =
    Inr (s\<lparr>hmem := (hmem s)(fst (vars s var_a) \<mapsto> replicate N lit_1_0f,
                              fst (vars s var_b) \<mapsto> replicate N lit_2_0f)\<rparr>)"
proof -
  from assms(4) obtain xs where xs: "hmem s (fst (vars s var_a)) = Some xs" "length xs = N"
    by auto
  from assms(5) obtain ys where ys: "hmem s (fst (vars s var_b)) = Some ys" "length ys = N"
    by auto
  show ?thesis
    by (rule init_loop_from [where xs = xs and ys = ys])
       (use assms xs ys in \<open>simp_all add: prod_eq_iff\<close>)
qed


lemma take_drop_update:
  "i < length ms \<Longrightarrow> length zs = length ms \<Longrightarrow>
   (take i ms @ drop i zs)[i := ms ! i] = take (Suc i) ms @ drop (Suc i) zs"
proof -
  assume i: "i < length ms" and l: "length zs = length ms"
  then have "drop i zs = zs ! i # drop (Suc i) zs"
    by (simp add: Cons_nth_drop_Suc)
  then have "(take i ms @ drop i zs)[i := ms ! i] = take i ms @ ms ! i # drop (Suc i) zs"
    using i by (simp add: list_update_append)
  also have "\<dots> = take (Suc i) ms @ drop (Suc i) zs"
    using i by (simp add: take_Suc_conv_app_nth)
  finally show ?thesis .
qed

lemma vector_add_loop_from:
  assumes "dmem s bo = Some (take k (pairwise_sum xs ys) @ drop k zs)"
    and "dmem s ba = Some xs" and "dmem s bb = Some ys"
    and "bo \<noteq> ba" and "bo \<noteq> bb"
    and "length xs = n" and "length ys = n" and "length zs = n" and "k \<le> n"
  shows "vector_add_loop (bo, 0) (ba, 0) (bb, 0) (int n) (int k) s =
    Inr (s\<lparr>dmem := (dmem s)(bo \<mapsto> pairwise_sum xs ys), klog := klog s @ map Write [k..<n]\<rparr>)"
  using assms
proof (induction "n - k" arbitrary: k s)
  case 0
  then have "k = n" by simp
  with "0.prems" have "(dmem s)(bo \<mapsto> pairwise_sum xs ys) = dmem s"
    by (auto simp: fun_eq_iff pairwise_sum_def)
  with \<open>k = n\<close> show ?case
    by (subst vector_add_loop.simps) simp
next
  case (Suc m)
  then have lt: "k < n" by simp
  let ?v = "fadd Binary32 (xs ! k) (ys ! k)"
  let ?h = "(dmem s)(bo \<mapsto> take (Suc k) (pairwise_sum xs ys) @ drop (Suc k) zs)"
  let ?s = "s\<lparr>dmem := ?h, klog := klog s @ [Write k]\<rparr>"
  have len: "length (pairwise_sum xs ys) = n"
    using Suc.prems by (simp add: pairwise_sum_def)
  have nth: "pairwise_sum xs ys ! k = ?v"
    using Suc.prems lt by (simp add: pairwise_sum_def)
  have la: "load (dmem s) (ba, 0) k = Inr (xs ! k)"
    using Suc.prems lt by (simp add: load_def)
  have lb: "load (dmem s) (bb, 0) k = Inr (ys ! k)"
    using Suc.prems lt by (simp add: load_def)
  have st: "store (dmem s) (bo, 0) k ?v = Inr ?h"
    using Suc.prems lt len take_drop_update [of k "pairwise_sum xs ys" zs]
    by (simp add: store_def nth)
  have "vector_add_loop (bo, 0) (ba, 0) (bb, 0) (int n) (int (Suc k)) ?s =
    Inr (?s\<lparr>dmem := (dmem ?s)(bo \<mapsto> pairwise_sum xs ys), klog := klog ?s @ map Write [Suc k..<n]\<rparr>)"
    using Suc.hyps Suc.prems lt by (intro Suc.hyps(1)) simp_all
  then have rec: "vector_add_loop (bo, 0) (ba, 0) (bb, 0) (int n) (int k + 1) ?s =
    Inr (s\<lparr>dmem := (dmem s)(bo \<mapsto> pairwise_sum xs ys), klog := klog s @ map Write [k..<n]\<rparr>)"
    using lt by (simp add: upt_conv_Cons add.commute)
  show ?case
    using lt la lb st rec by (subst vector_add_loop.simps) simp
qed

lemma vector_add_closed:
  assumes "map_option length (dmem s bo) = Some n"
    and "map_option length (dmem s ba) = Some n"
    and "map_option length (dmem s bb) = Some n"
    and "bo \<noteq> ba" and "bo \<noteq> bb"
  shows "vector_add (bo, 0) (ba, 0) (bb, 0) (int n) s =
    Inr (s\<lparr>dmem := (dmem s)(bo \<mapsto> pairwise_sum (the (dmem s ba)) (the (dmem s bb))),
            klog := klog s @ map Write [0..<n]\<rparr>)"
proof -
  from assms obtain xs ys zs where
    "dmem s bo = Some zs" "dmem s ba = Some xs" "dmem s bb = Some ys"
    "length xs = n" "length ys = n" "length zs = n"
    by auto
  then show ?thesis
    using assms(4,5) vector_add_loop_from [of s bo 0 xs ys zs ba bb n]
    by (simp add: vector_add_def)
qed

lemma pairwise_sum_replicate:
  "pairwise_sum (replicate n x) (replicate n y) = replicate n (fadd Binary32 x y)"
  by (simp add: pairwise_sum_def zip_replicate map_replicate)

lemma run_threads_one:
  "run_threads 1 body s =
     (case body (s\<lparr>klog := klog s @ [ThreadStart]\<rparr>) of Inl e \<Rightarrow> Inl e | Inr s' \<Rightarrow> Inr s')"
  by (simp add: One_nat_def split: sum.splits del: One_nat_def [symmetric])


lemma N_pos: "0 < N"
  by (simp add: N_def)

lemma compute_result: "run compute (initial hg dg) = Inr (computed hg dg)"
  by (simp add: compute_def initial_def malloc_def cudaMalloc_def init_loop_closed
      cudaMemcpy_def copy_cells_def launch_vector_add_def launch_def run_threads_one
      vector_add_closed pairwise_sum_replicate computed_def fun_eq_iff)


lemma verify_loop_pass:
  assumes "\<forall>i. j \<le> i \<and> i < N \<longrightarrow>
    (\<exists>x y z. load (hmem s) (vars s var_out) i = Inr x \<and>
       load (hmem s) (vars s var_a) i = Inr y \<and>
       load (hmem s) (vars s var_b) i = Inr z \<and> assert_cond x y z)"
  shows "verify_loop j s = Inr (s\<lparr>calls := calls s @ map Call_assert [j..<N]\<rparr>)"
  using assms
proof (induction j s rule: verify_loop.induct)
  case (1 j s)
  show ?case
  proof (cases "j < N")
    case False
    then show ?thesis by (subst verify_loop.simps) simp
  next
    case True
    with "1.prems" obtain x y z where
      x: "load (hmem s) (vars s var_out) j = Inr x" and
      y: "load (hmem s) (vars s var_a) j = Inr y" and
      z: "load (hmem s) (vars s var_b) j = Inr z" and
      c: "assert_cond x y z"
      by (metis order_refl)
    let ?s = "s\<lparr>calls := calls s @ [Call_assert j]\<rparr>"
    have "verify_loop (j + 1) ?s = Inr (?s\<lparr>calls := calls ?s @ map Call_assert [j + 1..<N]\<rparr>)"
      using "1.prems" by (intro "1.IH" [OF True x y z c]) simp
    then show ?thesis
      using True x y z c by (subst verify_loop.simps) (simp add: upt_conv_Cons)
  qed
qed

lemma representable_small:
  assumes "j < 2 ^ 24" and "e \<le> 253"
  shows "representable Binary32 (j * 2 ^ e)"
proof (cases "j = 0")
  case True
  then show ?thesis by (simp add: representable_def)
next
  case False
  then have bl: "bit_length (j * 2 ^ e) = bit_length j + e"
    by (simp only: bit_length_mult_pow neq0_conv)
  from assms(1) have b24: "bit_length j \<le> 24" by (simp only: bit_length_le_iff)
  from assms have "j * 2 ^ e < 2 ^ 24 * (2::nat) ^ e" by simp
  also have "\<dots> = 2 ^ (24 + e)" by (simp only: power_add)
  also have "\<dots> \<le> 2 ^ 277" using assms(2) by (intro power_increasing) simp_all
  finally have small: "j * 2 ^ e < 2 ^ maxbits Binary32" by simp
  have "(2::nat) ^ (bit_length j + e - 24) dvd 2 ^ e"
    using b24 by (intro le_imp_power_dvd) simp
  then have "2 ^ (bit_length j + e - 24) dvd j * 2 ^ e" by (rule dvd_mult)
  with small bl show ?thesis by (simp add: representable_def)
qed

lemma assert_cond_three:
  "assert_cond (fadd Binary32 lit_1_0f lit_2_0f) lit_1_0f lit_2_0f"
proof -
  have d: "fsub Binary32 (fsub Binary32 (fadd Binary32 lit_1_0f lit_2_0f) lit_1_0f) lit_2_0f = Fin False 0"
    by (simp add: f32_one_plus_two f32_one f32_two fp_eval)
  have r: "representable Binary32 0" by (simp add: representable_def)
  show ?thesis
    by (simp add: assert_cond_def d fconv_exact [OF r] max_err_value signed_def
        del: fconv.simps)
qed

lemma run_append:
  "run (cs @ ds) s = (case run cs s of Inl e \<Rightarrow> Inl e | Inr s' \<Rightarrow> run ds s')"
  by (induction cs arbitrary: s) (auto split: sum.splits)

lemma computed_loads:
  assumes "i < N"
  shows "load (hmem (computed hg dg)) (vars (computed hg dg) var_a) i = Inr lit_1_0f"
    and "load (hmem (computed hg dg)) (vars (computed hg dg) var_b) i = Inr lit_2_0f"
    and "load (hmem (computed hg dg)) (vars (computed hg dg) var_out) i =
          Inr (fadd Binary32 lit_1_0f lit_2_0f)"
  using assms by (simp_all add: computed_def load_def)

lemma verify_computed:
  "verify_loop 0 (computed hg dg) =
     Inr ((computed hg dg)\<lparr>calls := calls (computed hg dg) @ map Call_assert [0..<N]\<rparr>)"
  by (rule verify_loop_pass) (simp add: computed_loads assert_cond_three)

lemma finish_result: "run finish (computed hg dg) = Inr (finished hg dg)"
  using N_pos
  by (simp only: finish_def run.simps verify_computed sum.case)
    (simp add: printf_out0_def printf_passed_def cudaFree_def free_def finished_def
      computed_def load_def fun_eq_iff)

lemma main_result: "main hg dg = Inr (finished hg dg)"
  by (simp add: main_def run_append compute_result finish_result)


lemma vector_add_loop_klog:
  "vector_add_loop out a b n i s = Inr s' \<Longrightarrow> 0 \<le> i \<Longrightarrow>
   klog s' = klog s @ map Write [nat i..<nat n]"
proof (induction out a b n i s rule: vector_add_loop.induct)
  case (1 out a b n i s)
  show ?case
  proof (cases "i < n")
    case False
    with "1.prems" show ?thesis by (simp add: vector_add_loop.simps)
  next
    case True
    from True "1.prems"(1) obtain x y h where
      x: "load (dmem s) a (nat i) = Inr x" and
      y: "load (dmem s) b (nat i) = Inr y" and
      h: "store (dmem s) out (nat i) (fadd Binary32 x y) = Inr h" and
      r: "vector_add_loop out a b n (i + 1) (s\<lparr>dmem := h, klog := klog s @ [Write (nat i)]\<rparr>) = Inr s'"
      by (subst (asm) vector_add_loop.simps) (auto split: sum.splits)
    from "1.prems"(2) have suc: "nat (i + 1) = Suc (nat i)" by arith
    from True "1.prems"(2) have "nat i < nat n" by arith
    then have "[nat i..<nat n] = nat i # [nat (i + 1)..<nat n]"
      unfolding suc by (rule upt_conv_Cons)
    moreover have "klog s' = klog s @ [Write (nat i)] @ map Write [nat (i + 1)..<nat n]"
      using "1.IH" [OF True x y h r] "1.prems"(2) by simp
    ultimately show ?thesis by simp
  qed
qed


section \<open>Rounding is monotone\<close>

lemma rne_div_bounds:
  "n div d \<le> rne_div n d" "rne_div n d \<le> n div d + 1"
  by (simp_all add: rne_div_def Let_def)

lemma rne_div_mono:
  assumes "0 < d" and "n1 \<le> n2"
  shows "rne_div n1 d \<le> rne_div n2 d"
proof (cases "n1 div d < n2 div d")
  case True
  have "rne_div n1 d \<le> n1 div d + 1" by (rule rne_div_bounds)
  also have "\<dots> \<le> n2 div d" using True by simp
  also have "\<dots> \<le> rne_div n2 d" by (rule rne_div_bounds)
  finally show ?thesis .
next
  case False
  with assms(2) have q: "n1 div d = n2 div d"
    using div_le_mono [of n1 n2 d] by simp
  have "n1 mod d \<le> n2 mod d"
  proof -
    have "n1 = n1 div d * d + n1 mod d" "n2 = n2 div d * d + n2 mod d" by simp_all
    with q assms(2) show ?thesis by (metis add_le_cancel_left)
  qed
  with q show ?thesis by (auto simp: rne_div_def Let_def)
qed

lemma round_mag_scale:
  assumes "0 < c"
  shows "round_mag p (n * c) (d * c) = round_mag p n d"
proof -
  have "rne_div (n * c) (d * c * 2 ^ k) = rne_div n (d * 2 ^ k)" for k
    using rne_div_cancel [OF assms, of n "d * 2 ^ k"] by (simp add: mult_ac)
  moreover have "n * c div (d * c) = n div d" using assms by simp
  ultimately show ?thesis
    using rne_div_cancel [OF assms, of n d] by (simp add: round_mag_def Let_def)
qed

lemma round_mag_upper:
  "round_mag p n d \<le> 2 ^ max (bit_length (n div d)) p"
proof (cases "bit_length (n div d) \<le> p")
  case True
  have "n div d < 2 ^ bit_length (n div d)" by (rule bit_length_upper)
  also have "\<dots> \<le> (2::nat) ^ p" using True by (rule power_increasing) simp
  finally have "n div d + 1 \<le> 2 ^ p" by simp
  with rne_div_bounds(2) [of n d] have "rne_div n d \<le> 2 ^ p" by (rule order_trans)
  with True show ?thesis by (simp add: round_mag_def max_def)
next
  case False
  define b where "b = bit_length (n div d)"
  define k where "k = b - p"
  from False have bk: "b = p + k" by (simp add: b_def k_def)
  have "n div (d * 2 ^ k) = n div d div 2 ^ k" by (simp add: div_mult2_eq)
  also have "\<dots> < 2 ^ p"
  proof -
    have "n div d < 2 ^ b" unfolding b_def by (rule bit_length_upper)
    then have "n div d < 2 ^ p * 2 ^ k" by (simp add: bk power_add)
    then show ?thesis by (simp add: less_mult_imp_div_less)
  qed
  finally have "n div (d * 2 ^ k) + 1 \<le> 2 ^ p" by simp
  with rne_div_bounds(2) [of n "d * 2 ^ k"] have "rne_div n (d * 2 ^ k) \<le> 2 ^ p"
    by (rule order_trans)
  then have "rne_div n (d * 2 ^ k) * 2 ^ k \<le> 2 ^ p * 2 ^ k" by simp
  also have "\<dots> = 2 ^ b" by (simp add: bk power_add)
  finally show ?thesis
    using False by (simp add: round_mag_def b_def [symmetric] k_def [symmetric] max_def)
qed

lemma round_mag_lower:
  assumes "0 < p" and "p < bit_length (n div d)"
  shows "2 ^ (bit_length (n div d) - 1) \<le> round_mag p n d"
proof -
  define b where "b = bit_length (n div d)"
  define k where "k = b - p"
  from assms have bk: "b - 1 = (p - 1) + k" by (simp add: b_def k_def)
  from assms have pos: "0 < n div d"
    by (cases "n div d = 0") (simp_all add: b_def)
  have "2 ^ (b - 1) \<le> n div d" unfolding b_def by (rule bit_length_lower [OF pos])
  then have "2 ^ (p - 1) * 2 ^ k \<le> n div d" by (simp only: bk power_add)
  then have "2 ^ (p - 1) \<le> n div d div 2 ^ k"
    by (simp add: less_eq_div_iff_mult_less_eq)
  also have "\<dots> = n div (d * 2 ^ k)" by (simp add: div_mult2_eq)
  also have "\<dots> \<le> rne_div n (d * 2 ^ k)" by (rule rne_div_bounds)
  finally have "2 ^ (p - 1) * 2 ^ k \<le> rne_div n (d * 2 ^ k) * 2 ^ k" by simp
  then have "2 ^ (b - 1) \<le> rne_div n (d * 2 ^ k) * 2 ^ k" by (simp only: bk power_add)
  then show ?thesis
    using assms by (simp add: round_mag_def b_def [symmetric] k_def [symmetric])
qed

lemma round_mag_mono_same:
  assumes "0 < p" and "0 < d" and "n1 \<le> n2"
  shows "round_mag p n1 d \<le> round_mag p n2 d"
proof -
  define b1 where "b1 = bit_length (n1 div d)"
  define b2 where "b2 = bit_length (n2 div d)"
  have b12: "b1 \<le> b2"
    unfolding b1_def b2_def using assms(3) by (intro bit_length_mono div_le_mono)
  show ?thesis
  proof (cases "b2 \<le> p")
    case True
    with b12 have "b1 \<le> p" by simp
    with True show ?thesis
      using rne_div_mono [OF assms(2,3)]
      by (simp add: round_mag_def b1_def [symmetric] b2_def [symmetric])
  next
    case False
    show ?thesis
    proof (cases "b1 = b2")
      case True
      have "rne_div n1 (d * 2 ^ (b2 - p)) \<le> rne_div n2 (d * 2 ^ (b2 - p))"
        using assms by (intro rne_div_mono) simp_all
      with True False show ?thesis
        by (simp add: round_mag_def b1_def [symmetric] b2_def [symmetric])
    next
      case ne: False
      have "round_mag p n1 d \<le> 2 ^ max b1 p"
        unfolding b1_def by (rule round_mag_upper)
      also have "\<dots> \<le> (2::nat) ^ (b2 - 1)"
      proof (rule power_increasing)
        from ne b12 False show "max b1 p \<le> b2 - 1" by (simp add: max_def) arith
      qed simp
      also have "\<dots> \<le> round_mag p n2 d"
        unfolding b2_def using False assms(1) by (intro round_mag_lower) (simp_all add: b2_def)
      finally show ?thesis .
    qed
  qed
qed

lemma round_mag_mono:
  assumes "0 < p" and "0 < d1" and "0 < d2" and "n1 * d2 \<le> n2 * d1"
  shows "round_mag p n1 d1 \<le> round_mag p n2 d2"
proof -
  have "round_mag p n1 d1 = round_mag p (n1 * d2) (d1 * d2)"
    using assms(3) by (simp add: round_mag_scale)
  also have "\<dots> \<le> round_mag p (n2 * d1) (d1 * d2)"
    using assms by (intro round_mag_mono_same) simp_all
  also have "\<dots> = round_mag p (n2 * d1) (d2 * d1)" by (simp add: mult.commute)
  also have "\<dots> = round_mag p n2 d2"
    using assms(2) by (simp add: round_mag_scale)
  finally show ?thesis .
qed


lemma prec_pos: "0 < prec f"
  by (cases f) simp_all

lemma fround_ge:
  assumes "representable f c" and "c \<le> n"
  shows "fround f s n 1 = Infty s \<or> (\<exists>r. fround f s n 1 = Fin s r \<and> c \<le> r)"
proof -
  have "round_mag (prec f) (c * 1) 1 = c"
    using assms(1) by (intro round_mag_exact) (simp_all add: representable_def)
  moreover have "round_mag (prec f) (c * 1) 1 \<le> round_mag (prec f) n 1"
    using assms(2) prec_pos by (intro round_mag_mono) simp_all
  ultimately show ?thesis by (simp add: fround_def Let_def)
qed

lemma fround_le:
  assumes "representable f c" and "n \<le> c"
  shows "\<exists>r. fround f s n 1 = Fin s r \<and> r \<le> c"
proof -
  have "round_mag (prec f) (c * 1) 1 = c"
    using assms(1) by (intro round_mag_exact) (simp_all add: representable_def)
  moreover have "round_mag (prec f) n 1 \<le> round_mag (prec f) (c * 1) 1"
    using assms(2) prec_pos by (intro round_mag_mono) simp_all
  moreover have "c < 2 ^ maxbits f" using assms(1) by (simp add: representable_def)
  ultimately show ?thesis by (simp add: fround_def Let_def)
qed

lemma fadd_pos:
  "0 < signed s m + signed t k \<Longrightarrow>
   fadd f (Fin s m) (Fin t k) = fround f False (nat (signed s m + signed t k)) 1"
  by (simp add: Let_def)

lemma fadd_neg:
  "signed s m + signed t k < 0 \<Longrightarrow>
   fadd f (Fin s m) (Fin t k) = fround f True (nat (- (signed s m + signed t k))) 1"
  by (simp add: Let_def)

lemma fadd_zero:
  "signed s m + signed t k = 0 \<Longrightarrow> fadd f (Fin s m) (Fin t k) = Fin (s \<and> t) 0"
  by (simp add: Let_def)

lemma rep_units:
  "representable Binary32 (2 ^ 149)" "representable Binary32 (2 ^ 150)"
  "representable Binary32 (3 * 2 ^ 149)"
  using representable_small [of 1 149] representable_small [of 1 150]
    representable_small [of 3 149] by simp_all

lemma sub_one_outside:
  assumes "signed s m < 2 * 2 ^ 149 \<or> 4 * 2 ^ 149 < signed s m"
  shows "(\<exists>t. fsub Binary32 (Fin s m) lit_1_0f = Infty t) \<or>
         (\<exists>t k. fsub Binary32 (Fin s m) lit_1_0f = Fin t k \<and>
            (signed t k \<le> 2 ^ 149 \<or> 3 * 2 ^ 149 \<le> signed t k))"
proof -
  define z where "z = signed s m + signed True (2 ^ 149)"
  have sub: "fsub Binary32 (Fin s m) lit_1_0f = fadd Binary32 (Fin s m) (Fin True (2 ^ 149))"
    by (simp add: fsub_def f32_one)
  have zv: "z = signed s m - 2 ^ 149" by (simp add: z_def signed_def)
  consider "z = 0" | "z < 0" | "0 < z" "z \<le> 2 ^ 149" | "3 * 2 ^ 149 \<le> z"
    using assms zv by linarith
  then show ?thesis
  proof cases
    case 1
    then have "fsub Binary32 (Fin s m) lit_1_0f = Fin (s \<and> True) 0"
      unfolding sub z_def by (rule fadd_zero)
    then show ?thesis by (simp add: signed_def)
  next
    case 2
    then have "fsub Binary32 (Fin s m) lit_1_0f = fround Binary32 True (nat (- z)) 1"
      unfolding sub z_def by (rule fadd_neg)
    then show ?thesis by (auto simp: fround_def signed_def Let_def)
  next
    case 3
    then have e: "fsub Binary32 (Fin s m) lit_1_0f = fround Binary32 False (nat z) 1"
      unfolding sub z_def by (intro fadd_pos)
    from 3 have "nat z \<le> 2 ^ 149" by simp
    from fround_le [OF rep_units(1) this, of False] e show ?thesis
      by (auto simp: signed_def)
  next
    case 4
    then have e: "fsub Binary32 (Fin s m) lit_1_0f = fround Binary32 False (nat z) 1"
      unfolding sub z_def by (intro fadd_pos) simp
    from 4 have "3 * 2 ^ 149 \<le> nat z" by simp
    from fround_ge [OF rep_units(3) this, of False] e show ?thesis
      by (auto simp: signed_def)
  qed
qed

lemma sub_two_outside:
  assumes "signed t k \<le> 2 ^ 149 \<or> 3 * 2 ^ 149 \<le> signed t k"
  shows "at_least_one (fsub Binary32 (Fin t k) lit_2_0f)"
proof -
  define z where "z = signed t k + signed True (2 ^ 150)"
  have sub: "fsub Binary32 (Fin t k) lit_2_0f = fadd Binary32 (Fin t k) (Fin True (2 ^ 150))"
    by (simp add: fsub_def f32_two)
  have zv: "z = signed t k - 2 * 2 ^ 149" by (simp add: z_def signed_def)
  consider "z \<le> - (2 ^ 149)" | "2 ^ 149 \<le> z"
    using assms zv by linarith
  then show ?thesis
  proof cases
    case 1
    then have e: "fsub Binary32 (Fin t k) lit_2_0f = fround Binary32 True (nat (- z)) 1"
      unfolding sub z_def by (intro fadd_neg) simp
    from 1 have "2 ^ 149 \<le> nat (- z)" by simp
    from fround_ge [OF rep_units(1) this, of True] e show ?thesis
      by (auto simp: at_least_one_def)
  next
    case 2
    then have e: "fsub Binary32 (Fin t k) lit_2_0f = fround Binary32 False (nat z) 1"
      unfolding sub z_def by (intro fadd_pos) simp
    from 2 have "2 ^ 149 \<le> nat z" by simp
    from fround_ge [OF rep_units(1) this, of False] e show ?thesis
      by (auto simp: at_least_one_def)
  qed
qed

lemma outside_at_least_one:
  assumes "signed s m < 2 * 2 ^ 149 \<or> 4 * 2 ^ 149 < signed s m"
  shows "at_least_one (fsub Binary32 (fsub Binary32 (Fin s m) lit_1_0f) lit_2_0f)"
proof -
  from sub_one_outside [OF assms] consider
    (inf) t where "fsub Binary32 (Fin s m) lit_1_0f = Infty t" |
    (fin) t k where "fsub Binary32 (Fin s m) lit_1_0f = Fin t k"
      "signed t k \<le> 2 ^ 149 \<or> 3 * 2 ^ 149 \<le> signed t k"
    by blast
  then show ?thesis
  proof cases
    case inf
    then show ?thesis by (simp add: fsub_def f32_two at_least_one_def)
  next
    case fin
    then show ?thesis by (simp add: sub_two_outside)
  qed
qed


lemma bit_length_one: "bit_length (Suc 0) = Suc 0"
  by (simp add: bit_length.simps [of "Suc 0"])

lemma bit_length_pow2: "bit_length (2 ^ k) = Suc k"
  using bit_length_mult_pow [of 1 k] by (simp add: bit_length_one)

lemma at_least_one_not_small:
  assumes "at_least_one y"
  shows "\<not> flt (fconv Binary32 Binary64 (fabs y)) MAX_ERR"
proof (cases y)
  case (Fin t k)
  with assms have k: "2 ^ 149 \<le> k" by (simp add: at_least_one_def)
  define r where "r = round_mag 53 (k * 2 ^ 1074) (2 ^ 149)"
  have "round_mag 53 (2 ^ 1074 * 2 ^ 149) (2 ^ 149) = 2 ^ 1074"
    by (rule round_mag_exact) (simp_all add: bit_length_pow2 le_imp_power_dvd del: power_numeral)
  moreover have "round_mag 53 (2 ^ 1074 * 2 ^ 149) (2 ^ 149) \<le> r"
    unfolding r_def
  proof (rule round_mag_mono)
    from k have "2 ^ 149 * (2 ^ 1074 * 2 ^ 149) \<le> k * (2 ^ 1074 * 2 ^ 149)"
      by (rule mult_le_mono1)
    then show "2 ^ 1074 * 2 ^ 149 * 2 ^ 149 \<le> k * 2 ^ 1074 * 2 ^ 149"
      by (simp only: mult_ac)
  qed simp_all
  ultimately have big: "2 ^ 1074 \<le> r" by simp
  have "(4722366482869645::nat) * 2 ^ 1002 < 2 ^ 1074" by simp
  from this big have "4722366482869645 * 2 ^ 1002 < r" by (rule less_le_trans)
  then have "\<not> int r < int (4722366482869645 * 2 ^ 1002)"
    by (simp only: of_nat_less_iff not_less less_imp_le)
  then show ?thesis
    unfolding Fin fabs.simps fconv.simps fround_def max_err_value
    by (simp add: r_def [symmetric] Let_def signed_def del: power_numeral of_nat_mult of_nat_power of_nat_numeral)
next
  case (Infty t)
  then show ?thesis by (simp add: max_err_value)
next
  case NaN
  with assms show ?thesis by (simp add: at_least_one_def)
qed

lemma inside_grid:
  assumes "representable Binary32 m" and "2 * 2 ^ 149 \<le> m" and "m \<le> 4 * 2 ^ 149"
  shows "\<exists>j. m = j * 2 ^ 127 \<and> 2 ^ 23 \<le> j \<and> j \<le> 2 ^ 24"
proof -
  from assms(2) have "\<not> m < 2 ^ 150" by simp
  then have bl: "\<not> bit_length m \<le> 150" by (simp add: bit_length_le_iff del: power_numeral)
  then have "\<not> bit_length m \<le> 24" by simp
  with assms(1) have "2 ^ (bit_length m - 24) dvd m" by (simp add: representable_def)
  moreover have "(2::nat) ^ 127 dvd 2 ^ (bit_length m - 24)"
    using bl by (intro le_imp_power_dvd) simp
  ultimately have "2 ^ 127 dvd m" by (rule dvd_trans [rotated])
  then obtain j where j: "m = j * 2 ^ 127" by (auto simp: dvd_def mult.commute)
  have "(2::nat) ^ 23 * 2 ^ 127 \<le> j * 2 ^ 127"
    using assms(2) unfolding j by simp
  then have lo: "2 ^ 23 \<le> j" by (simp only: mult_le_cancel2) simp
  have "j * 2 ^ 127 \<le> (2::nat) ^ 24 * 2 ^ 127"
    using assms(3) unfolding j by simp
  then have hi: "j \<le> 2 ^ 24" by (simp only: mult_le_cancel2) simp
  from j lo hi show ?thesis by blast
qed


lemma inside_exact:
  assumes "2 ^ 23 \<le> j" and "j \<le> 2 ^ 24"
  shows "fabs (fsub Binary32 (fsub Binary32 (Fin False (j * 2 ^ 127)) lit_1_0f) lit_2_0f) =
           Fin False (nat \<bar>int j - 3 * 2 ^ 22\<bar> * 2 ^ 127)"
proof -
  define a where "a = j - 2 ^ 22"
  have ja: "j = a + 2 ^ 22" using assms(1) by (simp add: a_def)
  have a24: "a < 2 ^ 24" using assms(2) by (simp add: a_def)
  have apos: "0 < a" using assms(1) by (simp add: a_def)
  have z1: "signed False (j * 2 ^ 127) + signed True (2 ^ 149) = int (a * 2 ^ 127)"
    by (simp add: signed_def ja add_mult_distrib)
  have pos1: "0 < signed False (j * 2 ^ 127) + signed True (2 ^ 149)"
    unfolding z1 using apos by simp
  have d1: "fsub Binary32 (Fin False (j * 2 ^ 127)) lit_1_0f = Fin False (a * 2 ^ 127)"
  proof -
    have "fsub Binary32 (Fin False (j * 2 ^ 127)) lit_1_0f =
        fadd Binary32 (Fin False (j * 2 ^ 127)) (Fin True (2 ^ 149))"
      by (simp only: fsub_def f32_one fneg.simps not_False_eq_True)
    also have "\<dots> = fround Binary32 False (nat (int (a * 2 ^ 127))) 1"
      using fadd_pos [OF pos1, where f = Binary32] unfolding z1 .
    also have "\<dots> = fround Binary32 False (a * 2 ^ 127 * 1) 1"
      by (simp only: nat_int mult_1_right)
    also have "\<dots> = Fin False (a * 2 ^ 127)"
      by (rule fround_exact [OF representable_small [OF a24]]) simp_all
    finally show ?thesis .
  qed
  define c where "c = int j - 3 * 2 ^ 22"
  have z2: "signed False (a * 2 ^ 127) + signed True (2 ^ 150) = c * 2 ^ 127"
    by (simp add: signed_def c_def ja algebra_simps)
  have c24: "nat \<bar>c\<bar> < 2 ^ 24" using assms by (simp add: c_def)
  have rep: "representable Binary32 (nat \<bar>c\<bar> * 2 ^ 127)"
    by (rule representable_small [OF c24]) simp
  have sub2: "fsub Binary32 (Fin False (a * 2 ^ 127)) lit_2_0f =
      fadd Binary32 (Fin False (a * 2 ^ 127)) (Fin True (2 ^ 150))"
    by (simp only: fsub_def f32_two fneg.simps not_False_eq_True)
  have ex: "fround Binary32 t (nat \<bar>c\<bar> * 2 ^ 127 * 1) 1 = Fin t (nat \<bar>c\<bar> * 2 ^ 127)" for t
    by (rule fround_exact [OF rep]) simp
  have "fabs (fsub Binary32 (Fin False (a * 2 ^ 127)) lit_2_0f) = Fin False (nat \<bar>c\<bar> * 2 ^ 127)"
  proof (cases "c = 0")
    case True
    then have "signed False (a * 2 ^ 127) + signed True (2 ^ 150) = 0"
      unfolding z2 by simp
    from fadd_zero [OF this, where f = Binary32] True show ?thesis
      unfolding sub2 by simp
  next
    case False
    show ?thesis
    proof (cases "0 < c")
      case True
      then have p: "0 < signed False (a * 2 ^ 127) + signed True (2 ^ 150)"
        unfolding z2 by simp
      from True have "nat (c * 2 ^ 127) = nat \<bar>c\<bar> * 2 ^ 127 * 1"
        by (simp add: nat_mult_distrib)
      with fadd_pos [OF p, where f = Binary32] show ?thesis
        unfolding sub2 z2 by (simp only: ex fabs.simps)
    next
      case neg: False
      with False have lt: "c < 0" by simp
      then have p: "signed False (a * 2 ^ 127) + signed True (2 ^ 150) < 0"
        unfolding z2 by (simp add: mult_less_0_iff)
      from lt have "nat (- (c * 2 ^ 127)) = nat \<bar>c\<bar> * 2 ^ 127 * 1"
        by (simp add: nat_mult_distrib)
      with fadd_neg [OF p, where f = Binary32] show ?thesis
        unfolding sub2 z2 by (simp only: ex fabs.simps)
    qed
  qed
  then show ?thesis by (simp only: d1 c_def)
qed

lemma valof_units:
  "valof Binary32 lit_1_0f = 1" "valof Binary32 lit_2_0f = 2"
  by (simp_all add: f32_one f32_two)

lemma inside_iff:
  assumes "2 ^ 23 \<le> j" and "j \<le> 2 ^ 24"
  shows "assert_cond (Fin False (j * 2 ^ 127)) lit_1_0f lit_2_0f \<longleftrightarrow>
         within_tolerance (Fin False (j * 2 ^ 127)) lit_1_0f lit_2_0f"
proof -
  define A where "A = nat \<bar>int j - 3 * 2 ^ 22\<bar>"
  have A24: "A < 2 ^ 24" using assms by (simp add: A_def)
  have rep: "representable Binary32 (A * 2 ^ 127)"
    by (rule representable_small [OF A24]) simp
  have "assert_cond (Fin False (j * 2 ^ 127)) lit_1_0f lit_2_0f \<longleftrightarrow>
        flt (Fin False (A * 2 ^ 127 * 2 ^ 925)) (Fin False (4722366482869645 * 2 ^ 1002))"
    unfolding assert_cond_def inside_exact [OF assms] A_def [symmetric]
      fconv_exact [OF rep] max_err_value ..
  also have "\<dots> \<longleftrightarrow> A * 2 ^ 127 * 2 ^ 925 < 4722366482869645 * (2::nat) ^ 1002"
    by (simp only: flt.simps signed_def if_False of_nat_less_iff)
  also have "A * 2 ^ 127 * 2 ^ 925 = (A * 2 ^ 50) * (2::nat) ^ 1002"
    by (simp add: mult.assoc power_add [symmetric] del: power_numeral)
  also have "(A * 2 ^ 50) * (2::nat) ^ 1002 < 4722366482869645 * 2 ^ 1002 \<longleftrightarrow>
      A * 2 ^ 50 < 4722366482869645"
    by (simp only: mult_less_cancel2) simp
  also have "\<dots> \<longleftrightarrow> A \<le> 4" by simp arith
  finally have lhs: "assert_cond (Fin False (j * 2 ^ 127)) lit_1_0f lit_2_0f \<longleftrightarrow> A \<le> 4" .
  have "valof Binary32 (Fin False (j * 2 ^ 127)) = real j / 2 ^ 22"
    by (simp add: field_simps)
  then have d: "valof Binary32 (Fin False (j * 2 ^ 127)) - (1 + 2) =
      real_of_int (int j - 3 * 2 ^ 22) / 2 ^ 22"
    by (simp add: field_simps)
  have ra: "\<bar>real_of_int (int j - 3 * 2 ^ 22)\<bar> = real A"
    unfolding A_def by (simp only: of_nat_nat abs_ge_zero of_int_abs)
  have "\<bar>valof Binary32 (Fin False (j * 2 ^ 127)) - (1 + 2)\<bar> = real A / 2 ^ 22"
    unfolding d abs_divide ra by simp
  then have "within_tolerance (Fin False (j * 2 ^ 127)) lit_1_0f lit_2_0f \<longleftrightarrow>
      real A / 2 ^ 22 \<le> 1 / 10 ^ 6"
    by (simp only: within_tolerance_def valof_units is_finite.simps simp_thms)
  also have "\<dots> \<longleftrightarrow> real A * 10 ^ 6 \<le> 2 ^ 22"
    by (simp add: field_simps)
  also have "\<dots> \<longleftrightarrow> real (A * 10 ^ 6) \<le> real (2 ^ 22)"
    by simp
  also have "\<dots> \<longleftrightarrow> A * 10 ^ 6 \<le> 2 ^ 22"
    by (rule of_nat_le_iff)
  also have "\<dots> \<longleftrightarrow> A \<le> 4" by simp arith
  finally show ?thesis using lhs by simp
qed

lemma outside_iff:
  assumes "signed s m < 2 * 2 ^ 149 \<or> 4 * 2 ^ 149 < signed s m"
  shows "assert_cond (Fin s m) lit_1_0f lit_2_0f \<longleftrightarrow>
         within_tolerance (Fin s m) lit_1_0f lit_2_0f"
proof -
  have "\<not> assert_cond (Fin s m) lit_1_0f lit_2_0f"
    unfolding assert_cond_def
    by (rule at_least_one_not_small [OF outside_at_least_one [OF assms]])
  moreover have "\<not> within_tolerance (Fin s m) lit_1_0f lit_2_0f"
  proof -
    have v: "valof Binary32 (Fin s m) = real_of_int (signed s m) / 2 ^ 149"
      by (simp add: signed_def)
    from assms have "real_of_int (signed s m) < real_of_int (2 * 2 ^ 149) \<or>
        real_of_int (4 * 2 ^ 149) < real_of_int (signed s m)"
      by (simp only: of_int_less_iff)
    then have "real_of_int (signed s m) < 2 * 2 ^ 149 \<or> 4 * 2 ^ 149 < real_of_int (signed s m)"
      by simp
    then have "real_of_int (signed s m) / 2 ^ 149 < 2 \<or> 4 < real_of_int (signed s m) / 2 ^ 149"
      by (simp add: field_simps del: power_numeral)
    then have "1 < \<bar>valof Binary32 (Fin s m) - (1 + 2)\<bar>"
      unfolding v by linarith
    then show ?thesis
      by (simp add: within_tolerance_def valof_units del: valof.simps)
  qed
  ultimately show ?thesis by simp
qed

lemma assert_cond_iff:
  assumes "is_fp Binary32 z"
  shows "assert_cond z lit_1_0f lit_2_0f \<longleftrightarrow> within_tolerance z lit_1_0f lit_2_0f"
proof (cases z)
  case (Fin s m)
  show ?thesis
  proof (cases "signed s m < 2 * 2 ^ 149 \<or> 4 * 2 ^ 149 < signed s m")
    case True
    then show ?thesis unfolding Fin by (rule outside_iff)
  next
    case False
    then have s: "s = False" and lo: "2 * 2 ^ 149 \<le> m" and hi: "m \<le> 4 * 2 ^ 149"
      by (auto simp: signed_def split: if_splits)
    from assms Fin have "representable Binary32 m" by simp
    from inside_grid [OF this lo hi] obtain j where
      "m = j * 2 ^ 127" "2 ^ 23 \<le> j" "j \<le> 2 ^ 24" by blast
    then show ?thesis unfolding Fin s by (simp only: inside_iff)
  qed
next
  case (Infty t)
  then show ?thesis
    by (simp add: assert_cond_def within_tolerance_def fsub_def f32_one f32_two max_err_value)
next
  case NaN
  then show ?thesis
    by (simp add: assert_cond_def within_tolerance_def fsub_def)
qed

lemma verify_loop_fail:
  assumes "\<forall>k<N. load (hmem s) (vars s var_out) k = Inr (f k) \<and>
             load (hmem s) (vars s var_a) k = Inr (g k) \<and>
             load (hmem s) (vars s var_b) k = Inr (h k)"
    and "j \<le> i" and "i < N"
    and "\<forall>k. j \<le> k \<and> k < i \<longrightarrow> assert_cond (f k) (g k) (h k)"
    and "\<not> assert_cond (f i) (g i) (h i)"
  shows "verify_loop j s = Inl (AssertionFailed i)"
  using assms
proof (induction j s rule: verify_loop.induct)
  case (1 j s)
  from "1.prems"(2,3) have jN: "j < N" by simp
  with "1.prems"(1) have
    x: "load (hmem s) (vars s var_out) j = Inr (f j)" and
    y: "load (hmem s) (vars s var_a) j = Inr (g j)" and
    z: "load (hmem s) (vars s var_b) j = Inr (h j)"
    by simp_all
  show ?case
  proof (cases "j = i")
    case True
    with jN x y z "1.prems"(5) show ?thesis
      by (subst verify_loop.simps) simp
  next
    case False
    with "1.prems"(2) have lt: "j < i" by simp
    with "1.prems"(4) have c: "assert_cond (f j) (g j) (h j)" by simp
    have "verify_loop (j + 1) (s\<lparr>calls := calls s @ [Call_assert j]\<rparr>) = Inl (AssertionFailed i)"
      using "1.prems" lt by (intro "1.IH" [OF jN x y z c]) simp_all
    with jN x y z c show ?thesis
      by (subst verify_loop.simps) simp
  qed
qed

lemma with_out_loads:
  assumes "length zs = N" and "k < N"
  shows "load (hmem (with_out (computed hg dg) zs)) (vars (with_out (computed hg dg) zs) var_out) k
           = Inr (zs ! k)"
    and "load (hmem (with_out (computed hg dg) zs)) (vars (with_out (computed hg dg) zs) var_a) k
           = Inr lit_1_0f"
    and "load (hmem (with_out (computed hg dg) zs)) (vars (with_out (computed hg dg) zs) var_b) k
           = Inr lit_2_0f"
  using assms by (simp_all add: with_out_def computed_def load_def)

lemma finish_passes:
  assumes "length zs = N"
    and "\<forall>k<N. assert_cond (zs ! k) lit_1_0f lit_2_0f"
  shows "\<exists>s'. run finish (with_out (computed hg dg) zs) = Inr s' \<and>
    stdout s' = [Formatted ''out[0] = %f'' (fconv Binary32 Binary64 (zs ! 0)), Text ''PASSED'']"
proof -
  let ?s = "with_out (computed hg dg) zs"
  have v: "verify_loop 0 ?s = Inr (?s\<lparr>calls := calls ?s @ map Call_assert [0..<N]\<rparr>)"
    by (rule verify_loop_pass) (simp add: with_out_loads [OF assms(1)] assms(2))
  have l: "load (hmem ?s) (vars ?s var_out) 0 = Inr (zs ! 0)"
    by (rule with_out_loads [OF assms(1) N_pos])
  have "stdout ?s = []" by (simp add: with_out_def computed_def)
  then show ?thesis
    by (simp only: finish_def run.simps v sum.case)
      (simp add: printf_out0_def printf_passed_def cudaFree_def free_def l)
qed

lemma finish_fails:
  assumes "length zs = N" and "i < N"
    and "\<forall>k<i. assert_cond (zs ! k) lit_1_0f lit_2_0f"
    and "\<not> assert_cond (zs ! i) lit_1_0f lit_2_0f"
  shows "run finish (with_out (computed hg dg) zs) = Inl (AssertionFailed i)"
proof -
  let ?s = "with_out (computed hg dg) zs"
  have "verify_loop 0 ?s = Inl (AssertionFailed i)"
    by (rule verify_loop_fail [where f = "\<lambda>k. zs ! k" and g = "\<lambda>k. lit_1_0f" and h = "\<lambda>k. lit_2_0f"])
      (use assms in \<open>simp_all add: with_out_loads\<close>)
  then show ?thesis by (simp add: finish_def)
qed


lemma main_is_finish:
  "main hg dg =
     run finish (with_out (computed hg dg) (replicate N (fadd Binary32 lit_1_0f lit_2_0f)))"
proof -
  have "with_out (computed hg dg) (replicate N (fadd Binary32 lit_1_0f lit_2_0f)) = computed hg dg"
    by (simp add: with_out_def computed_def fun_eq_iff)
  then show ?thesis by (simp add: main_def run_append compute_result)
qed


section \<open>The host program, stage by stage\<close>

lemmas stmt_defs = malloc_def cudaMalloc_def cudaMemcpy_def copy_cells_def
  launch_vector_add_def launch_def printf_out0_def printf_passed_def cudaFree_def free_def

lemma length_compute: "length compute = 11"
  by (simp add: compute_def)

lemma after_compute: "after (11 + k) hg dg = run (take k finish) (computed hg dg)"
  by (simp add: after_def length_compute run_append compute_result)

lemma after_3:
  "\<exists>s. after 3 hg dg = Inr s \<and>
     calls s = [Call_malloc var_a N, Call_malloc var_b N, Call_malloc var_out N] \<and>
     vars s var_a = (0, 0) \<and> vars s var_b = (1, 0) \<and> vars s var_out = (2, 0) \<and>
     hmem s = [0 \<mapsto> map (hg 0) [0..<N], 1 \<mapsto> map (hg 1) [0..<N], 2 \<mapsto> map (hg 2) [0..<N]] \<and>
     dmem (dev s) = Map.empty"
  by (simp add: after_def compute_def finish_def initial_def stmt_defs fun_eq_iff
      numeral_2_eq_2)

lemma after_4:
  "\<exists>s. after 4 hg dg = Inr s \<and>
     calls s = [Call_malloc var_a N, Call_malloc var_b N, Call_malloc var_out N] \<and>
     hmem s = [0 \<mapsto> replicate N lit_1_0f, 1 \<mapsto> replicate N lit_2_0f,
               2 \<mapsto> map (hg 2) [0..<N]] \<and>
     dmem (dev s) = Map.empty"
  by (simp add: after_def compute_def finish_def initial_def stmt_defs init_loop_closed
      fun_eq_iff numeral_2_eq_2)

lemma after_7:
  "\<exists>s. after 7 hg dg = Inr s \<and>
     calls s = [Call_malloc var_a N, Call_malloc var_b N, Call_malloc var_out N,
        Call_cudaMalloc var_d_a N, Call_cudaMalloc var_d_b N, Call_cudaMalloc var_d_out N] \<and>
     vars s var_d_a = (0, 0) \<and> vars s var_d_b = (1, 0) \<and> vars s var_d_out = (2, 0) \<and>
     dmem (dev s) = [0 \<mapsto> map (dg 0) [0..<N], 1 \<mapsto> map (dg 1) [0..<N],
                     2 \<mapsto> map (dg 2) [0..<N]]"
  by (simp add: after_def compute_def finish_def initial_def stmt_defs init_loop_closed
      fun_eq_iff numeral_2_eq_2)

lemma after_9:
  "\<exists>s. after 9 hg dg = Inr s \<and>
     calls s = [Call_malloc var_a N, Call_malloc var_b N, Call_malloc var_out N,
        Call_cudaMalloc var_d_a N, Call_cudaMalloc var_d_b N, Call_cudaMalloc var_d_out N,
        Call_cudaMemcpy var_d_a var_a N cudaMemcpyHostToDevice,
        Call_cudaMemcpy var_d_b var_b N cudaMemcpyHostToDevice] \<and>
     dmem (dev s) = [0 \<mapsto> replicate N lit_1_0f, 1 \<mapsto> replicate N lit_2_0f,
                     2 \<mapsto> map (dg 2) [0..<N]]"
  by (simp add: after_def compute_def finish_def initial_def stmt_defs init_loop_closed
      fun_eq_iff numeral_2_eq_2)

lemma after_10:
  "\<exists>s. after 10 hg dg = Inr s \<and>
     calls s = [Call_malloc var_a N, Call_malloc var_b N, Call_malloc var_out N,
        Call_cudaMalloc var_d_a N, Call_cudaMalloc var_d_b N, Call_cudaMalloc var_d_out N,
        Call_cudaMemcpy var_d_a var_a N cudaMemcpyHostToDevice,
        Call_cudaMemcpy var_d_b var_b N cudaMemcpyHostToDevice,
        Call_launch 1 1] \<and>
     dmem (dev s) = [0 \<mapsto> replicate N lit_1_0f, 1 \<mapsto> replicate N lit_2_0f,
                     2 \<mapsto> replicate N (fadd Binary32 lit_1_0f lit_2_0f)] \<and>
     klog (dev s) = ThreadStart # map Write [0..<N] \<and>
     hmem s = [0 \<mapsto> replicate N lit_1_0f, 1 \<mapsto> replicate N lit_2_0f,
               2 \<mapsto> map (hg 2) [0..<N]]"
  by (simp add: after_def compute_def finish_def initial_def stmt_defs init_loop_closed
      run_threads_one vector_add_closed pairwise_sum_replicate fun_eq_iff numeral_2_eq_2)

lemma after_11:
  "after 11 hg dg = Inr (computed hg dg)"
  using after_compute [of 0 hg dg] by simp

lemma after_12:
  "after 12 hg dg =
     Inr ((computed hg dg)\<lparr>calls := calls (computed hg dg) @ map Call_assert [0..<N]\<rparr>)"
proof -
  have "take 1 finish = [verify_loop 0]" by (simp add: finish_def)
  with after_compute [of 1 hg dg] show ?thesis by (simp add: verify_computed)
qed

lemma take_finish:
  "take 3 finish = [verify_loop 0, printf_out0, printf_passed]"
  "take 6 finish = [verify_loop 0, printf_out0, printf_passed,
      cudaFree var_d_a, cudaFree var_d_b, cudaFree var_d_out]"
  "take 9 finish = finish"
  by (simp_all add: finish_def)

lemma after_14:
  "\<exists>s. after 14 hg dg = Inr s \<and>
     stdout s = [Formatted ''out[0] = %f'' (fconv Binary32 Binary64 (fadd Binary32 lit_1_0f lit_2_0f)),
                 Text ''PASSED''] \<and>
     hmem s = hmem (computed hg dg) \<and> dmem (dev s) = dmem (dev (computed hg dg))"
proof -
  have "after 14 hg dg = run (take 3 finish) (computed hg dg)"
    using after_compute [of 3 hg dg] by simp
  also have "\<dots> = run [printf_out0, printf_passed]
      ((computed hg dg)\<lparr>calls := calls (computed hg dg) @ map Call_assert [0..<N]\<rparr>)"
    by (simp only: take_finish run.simps verify_computed sum.case)
  finally show ?thesis
    using N_pos by (simp add: stmt_defs computed_def load_def)
qed

lemma after_17:
  "\<exists>s. after 17 hg dg = Inr s \<and>
     hmem s = hmem (computed hg dg) \<and> dmem (dev s) = Map.empty"
proof -
  have "after 17 hg dg = run (take 6 finish) (computed hg dg)"
    using after_compute [of 6 hg dg] by simp
  also have "\<dots> = run [printf_out0, printf_passed,
        cudaFree var_d_a, cudaFree var_d_b, cudaFree var_d_out]
      ((computed hg dg)\<lparr>calls := calls (computed hg dg) @ map Call_assert [0..<N]\<rparr>)"
    by (simp only: take_finish run.simps verify_computed sum.case)
  finally show ?thesis
    using N_pos by (simp add: stmt_defs computed_def load_def fun_eq_iff)
qed

lemma after_20: "after 20 hg dg = main hg dg"
  by (simp add: after_def main_def length_compute finish_def)


lemma after_11_calls:
  "\<exists>s. after 11 hg dg = Inr s \<and>
     calls s = [Call_malloc var_a N, Call_malloc var_b N, Call_malloc var_out N,
        Call_cudaMalloc var_d_a N, Call_cudaMalloc var_d_b N, Call_cudaMalloc var_d_out N,
        Call_cudaMemcpy var_d_a var_a N cudaMemcpyHostToDevice,
        Call_cudaMemcpy var_d_b var_b N cudaMemcpyHostToDevice,
        Call_launch 1 1,
        Call_cudaMemcpy var_out var_d_out N cudaMemcpyDeviceToHost] \<and>
     hmem s = [0 \<mapsto> replicate N lit_1_0f, 1 \<mapsto> replicate N lit_2_0f,
               2 \<mapsto> replicate N (fadd Binary32 lit_1_0f lit_2_0f)]"
  by (simp add: after_11 computed_def)

lemma after_12_calls:
  "\<exists>s. after 12 hg dg = Inr s \<and>
     calls s = [Call_malloc var_a N, Call_malloc var_b N, Call_malloc var_out N,
        Call_cudaMalloc var_d_a N, Call_cudaMalloc var_d_b N, Call_cudaMalloc var_d_out N,
        Call_cudaMemcpy var_d_a var_a N cudaMemcpyHostToDevice,
        Call_cudaMemcpy var_d_b var_b N cudaMemcpyHostToDevice,
        Call_launch 1 1,
        Call_cudaMemcpy var_out var_d_out N cudaMemcpyDeviceToHost] @
        map Call_assert [0..<N]"
  by (simp add: after_12 computed_def)

lemma after_11_fails:
  assumes "length zs = N" and "i < N"
    and "\<forall>k<i. assert_cond (zs ! k) lit_1_0f lit_2_0f"
    and "\<not> assert_cond (zs ! i) lit_1_0f lit_2_0f"
  shows "\<exists>s. after 11 hg dg = Inr s \<and>
     run (drop 11 (compute @ finish)) (with_out s zs) = Inl (AssertionFailed i)"
  using finish_fails [OF assms, of hg dg] by (simp add: after_11 length_compute)

lemma after_17_blocks:
  "\<exists>s. after 17 hg dg = Inr s \<and>
     hmem s = [0 \<mapsto> replicate N lit_1_0f, 1 \<mapsto> replicate N lit_2_0f,
               2 \<mapsto> replicate N (fadd Binary32 lit_1_0f lit_2_0f)] \<and>
     dmem (dev s) = Map.empty"
proof -
  from after_17 [of hg dg] obtain s where "after 17 hg dg = Inr s"
    "hmem s = hmem (computed hg dg)" "dmem (dev s) = Map.empty"
    by (elim exE conjE)
  then show ?thesis by (intro exI [of _ s]) (simp add: computed_def)
qed

lemma after_14_out:
  "\<exists>s. after 14 hg dg = Inr s \<and>
     stdout s = [Formatted ''out[0] = %f'' (fconv Binary32 Binary64 (fadd Binary32 lit_1_0f lit_2_0f)),
                 Text ''PASSED''] \<and>
     dmem (dev s) = [0 \<mapsto> replicate N lit_1_0f, 1 \<mapsto> replicate N lit_2_0f,
                     2 \<mapsto> replicate N (fadd Binary32 lit_1_0f lit_2_0f)]"
proof -
  from after_14 [of hg dg] obtain s where "after 14 hg dg = Inr s"
    "stdout s = [Formatted ''out[0] = %f'' (fconv Binary32 Binary64 (fadd Binary32 lit_1_0f lit_2_0f)),
                 Text ''PASSED'']"
    "dmem (dev s) = dmem (dev (computed hg dg))"
    by (elim exE conjE)
  then show ?thesis by (intro exI [of _ s]) (simp add: computed_def)
qed

lemma after_20_end:
  "\<exists>s. after 20 hg dg = Inr s \<and> main hg dg = Inr s \<and>
     hmem s = Map.empty \<and> dmem (dev s) = Map.empty \<and>
     calls s =
       [Call_malloc var_a N, Call_malloc var_b N, Call_malloc var_out N,
        Call_cudaMalloc var_d_a N, Call_cudaMalloc var_d_b N, Call_cudaMalloc var_d_out N,
        Call_cudaMemcpy var_d_a var_a N cudaMemcpyHostToDevice,
        Call_cudaMemcpy var_d_b var_b N cudaMemcpyHostToDevice,
        Call_launch 1 1,
        Call_cudaMemcpy var_out var_d_out N cudaMemcpyDeviceToHost] @
       map Call_assert [0..<N] @
       [Call_printf, Call_printf,
        Call_cudaFree var_d_a, Call_cudaFree var_d_b, Call_cudaFree var_d_out,
        Call_free var_a, Call_free var_b, Call_free var_out]"
  by (simp add: after_20 main_result finished_def computed_def)


section \<open>Running the notebook\<close>

lemma fround_units:
  assumes "k < 2 ^ 24"
  shows "fround Binary32 s (k * 2 ^ 149) 1 = Fin s (k * 2 ^ 149)"
proof -
  have "representable Binary32 (k * 2 ^ 149)"
    by (rule representable_small [OF assms]) simp
  from fround_exact [OF this, of 1 s] show ?thesis by simp
qed

lemma of_int_small:
  assumes "k < 2 ^ 24"
  shows "of_int_fp Binary32 (int k) = Fin False (k * 2 ^ 149)"
  using fround_units [OF assms, of False] by (simp add: of_int_fp_def)

lemma fmul_small:
  assumes "a * b < 2 ^ 24"
  shows "fmul Binary32 (Fin False (a * 2 ^ 149)) (Fin False (b * 2 ^ 149)) =
         Fin False (a * b * 2 ^ 149)"
proof -
  have "representable Binary32 (a * b * 2 ^ 149)"
    by (rule representable_small [OF assms]) simp
  from fround_exact [OF this, of "2 ^ 149" False]
  have "fround Binary32 False (a * b * 2 ^ 149 * 2 ^ 149) (2 ^ 149) = Fin False (a * b * 2 ^ 149)"
    by simp
  moreover have "a * 2 ^ 149 * (b * 2 ^ 149) = a * b * 2 ^ 149 * (2::nat) ^ 149"
    by (simp only: mult_ac)
  ultimately show ?thesis by (simp only: fmul.simps scale.simps simp_thms)
qed

lemma fadd_small:
  assumes "a + b < 2 ^ 24"
  shows "fadd Binary32 (Fin False (a * 2 ^ 149)) (Fin False (b * 2 ^ 149)) =
         Fin False ((a + b) * 2 ^ 149)"
proof -
  have z: "signed False (a * 2 ^ 149) + signed False (b * 2 ^ 149) = int ((a + b) * 2 ^ 149)"
    by (simp add: signed_def add_mult_distrib)
  show ?thesis
  proof (cases "a + b = 0")
    case True
    then show ?thesis by (simp add: Let_def signed_def)
  next
    case False
    then have "0 < (a + b) * (2::nat) ^ 149" by simp
    then have "0 < signed False (a * 2 ^ 149) + signed False (b * 2 ^ 149)"
      unfolding z by (simp only: of_nat_0_less_iff)
    from fadd_pos [OF this, where f = Binary32] show ?thesis
      unfolding z by (simp only: nat_int fround_units [OF assms])
  qed
qed

lemma n_nb_small: "3 * n_nb < 2 ^ 24" "10 \<le> n_nb"
  by (simp_all add: n_nb_def)

lemma x_nb_elems: "elems x_nb = map (\<lambda>i. Fin False (i * 2 ^ 149)) [0..<n_nb]"
proof -
  have "of_int_fp Binary32 (int i) = Fin False (i * 2 ^ 149)" if "i < n_nb" for i
    using that n_nb_small(1) by (intro of_int_small) simp
  then show ?thesis
    by (simp add: x_nb_def astype_def arange_def del: power_numeral)
qed

lemma y_nb_elems: "elems y_nb = map (\<lambda>i. Fin False (2 * i * 2 ^ 149)) [0..<n_nb]"
proof -
  have two: "of_int_fp Binary32 2 = Fin False (2 * 2 ^ 149)"
    using of_int_small [of 2] by simp
  have "fmul Binary32 (Fin False (2 * 2 ^ 149)) (Fin False (i * 2 ^ 149)) =
      Fin False (2 * i * 2 ^ 149)" if "i < n_nb" for i
    using that n_nb_small(1) by (intro fmul_small) simp
  moreover have "dtype x_nb = float32" by (simp add: x_nb_def astype_def)
  ultimately show ?thesis
    by (simp add: y_nb_def scalar_times_def x_nb_elems two del: power_numeral)
qed

lemma shapes_nb:
  "shape x_nb = [n_nb]" "dtype x_nb = float32" "shape y_nb = [n_nb]" "dtype y_nb = float32"
  "strides x_nb = [4]" "strides y_nb = [4]"
  by (simp_all add: x_nb_def y_nb_def scalar_times_def astype_def arange_def)

lemma sentry_nb: "sentry_contiguous x_nb = Inr ()" "sentry_contiguous y_nb = Inr ()"
  by (simp_all add: sentry_contiguous_def shapes_nb array_core_def c_contig_def n_nb_def)

lemma out_host_value:
  "out_host g = Inr \<lparr>shape = [n_nb], dtype = float32, strides = [4], elems = sum_elems\<rparr>"
proof -
  have add: "fadd Binary32 (Fin False (i * 2 ^ 149)) (Fin False (2 * i * 2 ^ 149)) =
      Fin False (3 * i * 2 ^ 149)" if "i < n_nb" for i
  proof -
    from that n_nb_small(1) have "i + 2 * i < 2 ^ 24" by simp
    from fadd_small [OF this] show ?thesis by (simp del: power_numeral)
  qed
  have l: "length (elems x_nb) = n_nb" "length (elems y_nb) = n_nb"
    by (simp_all add: x_nb_elems y_nb_elems)
  have r: "resolve_signature add_ufunc_gpu
      [DeviceArg \<lparr>d_shape = [n_nb], d_dtype = float32, d_strides = [4], d_buf = a\<rparr>,
       DeviceArg \<lparr>d_shape = [n_nb], d_dtype = float32, d_strides = [4], d_buf = b\<rparr>] =
        Inr ([float32, float32], float32)"
    for a b
    by (simp add: resolve_signature_def add_ufunc_gpu_def matches_def)
  have m: "map (\<lambda>j. add_ufunc (elems x_nb ! j) (elems y_nb ! j)) [0..<n_nb] = sum_elems"
    unfolding sum_elems_def
    by (rule map_cong [OF refl])
      (simp add: x_nb_elems y_nb_elems add_ufunc_def add del: power_numeral fadd.simps)
  have sf: "scalar_fn add_ufunc_gpu vs = add_ufunc (vs ! 0) (vs ! 1)" for vs
    by (simp add: add_ufunc_gpu_def)
  show ?thesis
    by (simp add: out_host_def to_device_def sentry_nb device_array_def shapes_nb ufunc_call_def r
        spread_def l copy_to_host_def sf m Let_def)
qed



subsection \<open>Transfers\<close>

lemma walk_core:
  "walk sz axes \<Longrightarrow> 0 < sz \<Longrightarrow> 0 \<notin> set (map fst axes) \<Longrightarrow>
   walk sz (filter (\<lambda>(k, s). s \<noteq> 0) axes)"
proof (induction sz axes rule: walk.induct)
  case (1 sd)
  then show ?case by simp
next
  case (2 sd k s r)
  show ?case
  proof (cases "k = 1")
    case True
    with 2 show ?thesis by simp
  next
    case False
    with "2.prems" have s: "s = int sd" and w: "walk (sd * k) r" and k: "0 < k"
      by simp_all
    from "2.prems"(2) k have "0 < sd * k" by simp
    with "2.IH"(2) [OF False] w "2.prems"(3) have "walk (sd * k) (filter (\<lambda>(k, s). s \<noteq> 0) r)"
      by simp
    with s False "2.prems"(2) show ?thesis by simp
  qed
qed

lemma itemsize_pos: "0 < itemsize d"
  by (cases d) simp_all

lemma contiguous_core:
  assumes "c_contig (itemsize d) axes \<or> f_contig (itemsize d) axes"
  shows "c_contig (itemsize d) (array_core axes) \<or> f_contig (itemsize d) (array_core axes)"
proof (cases "axes = [] \<or> 0 \<in> set (map fst axes)")
  case True
  with assms show ?thesis by (simp add: array_core_def)
next
  case False
  then have z: "0 \<notin> set (map fst axes)" and core: "array_core axes = filter (\<lambda>(k, s). s \<noteq> 0) axes"
    by (simp_all add: array_core_def)
  from assms z have "walk (itemsize d) (rev axes) \<or> walk (itemsize d) axes"
    by (simp add: c_contig_def f_contig_def)
  then show ?thesis
  proof
    assume "walk (itemsize d) (rev axes)"
    moreover from z have "0 \<notin> set (map fst (rev axes))" by simp
    ultimately have "walk (itemsize d) (filter (\<lambda>(k, s). s \<noteq> 0) (rev axes))"
      using itemsize_pos by (intro walk_core)
    then show ?thesis by (simp add: core c_contig_def rev_filter)
  next
    assume "walk (itemsize d) axes"
    then have "walk (itemsize d) (filter (\<lambda>(k, s). s \<noteq> 0) axes)"
      using itemsize_pos z by (intro walk_core)
    then show ?thesis by (simp add: core f_contig_def)
  qed
qed

lemma sentry_contiguous_ok:
  "c_contiguous a \<or> f_contiguous a \<Longrightarrow> sentry_contiguous a = Inr ()"
  using contiguous_core [of "dtype a" "zip (shape a) (strides a)"]
  by (simp add: sentry_contiguous_def c_contiguous_def f_contiguous_def Let_def)

lemma to_device_ok:
  "c_contiguous a \<or> f_contiguous a \<Longrightarrow>
   to_device (Array a) g =
     Inr (\<lparr>d_shape = shape a, d_dtype = dtype a, d_strides = strides a, d_buf = fresh g\<rparr>,
          g\<lparr>buffers := (buffers g)(fresh g \<mapsto> elems a), fresh := Suc (fresh g)\<rparr>)"
  by (simp add: to_device_def sentry_contiguous_ok)


section \<open>The pulse function\<close>

lemma c03_value: "fconst Binary64 3 10 = Fin False units_0_3"
proof -
  have bl: "bit_length (3 * 2 ^ 1074 div 10) = 1073"
    by (rule bit_length_div_eqI) simp_all
  have "rne_div (3 * 2 ^ 54 * 2 ^ 1020) (10 * 2 ^ 1020) = rne_div (3 * 2 ^ 54) 10"
    by (rule rne_div_cancel) simp
  also have "\<dots> = 5404319552844595"
    by (simp add: rne_div_def Let_def)
  finally have "rne_div (3 * 2 ^ 1074) (10 * 2 ^ 1020) = 5404319552844595"
    by (simp add: power_add [symmetric])
  then have "round_mag 53 (3 * 2 ^ 1074) 10 = 5404319552844595 * 2 ^ 1020"
    using bl by (simp add: round_mag_def del: power_numeral)
  moreover have "(5404319552844595::nat) * 2 ^ 1020 < 2 ^ 2098"
    by simp
  ultimately show ?thesis
    by (simp add: fconst_def fround_def units_0_3_def del: power_numeral)
qed


lemma one_minus_0_3: "round_mag 53 (2 ^ 1074 - units_0_3) 1 = units_0_7"
proof -
  have n: "2 ^ 1074 - units_0_3 = 12610078956637389 * 2 ^ 1020"
    by (simp add: units_0_3_def)
  have b54: "bit_length 12610078956637389 = 54"
    by (rule bit_length_eqI) simp_all
  have bl: "bit_length (12610078956637389 * 2 ^ 1020 div 1) = 1074"
    using bit_length_mult_pow [of 12610078956637389 1020] b54 by (simp del: power_numeral)
  have "rne_div (12610078956637389 * 2 ^ 1020) (2 * 2 ^ 1020) = rne_div 12610078956637389 2"
    by (rule rne_div_cancel) simp
  also have "\<dots> = 6305039478318694"
    by (simp add: rne_div_def Let_def)
  finally have "rne_div (12610078956637389 * 2 ^ 1020) (1 * 2 ^ 1021) = 6305039478318694"
    by simp
  then show ?thesis
    unfolding n units_0_7_def using bl by (simp add: round_mag_def del: power_numeral)
qed









text \<open>
  When the sine is exactly \<open>1.0\<close> and the amplitude is \<open>7.0\<close>, the value returned is the
  \<^verbatim>\<open>float32\<close> nearest to \<open>4.9\<close>, which is larger than the real number \<open>0.7 * 7\<close>.
\<close>

lemma difference_at_one:
  "fsub Binary64 (fconv Binary32 Binary64 lit_1_0f) (fconst Binary64 3 10) = Fin False units_0_7"
proof -
  have c: "fconv Binary32 Binary64 lit_1_0f = Fin False (2 ^ 149 * 2 ^ 925)"
    unfolding f32_one by (rule fconv_exact [OF rep_units(1)])
  have z: "signed False (2 ^ 149 * 2 ^ 925) + signed True units_0_3 =
      int (2 ^ 1074 - units_0_3)"
    by (simp add: signed_def units_0_3_def)
  have pos: "0 < signed False (2 ^ 149 * 2 ^ 925) + signed True units_0_3"
    unfolding z by (simp add: units_0_3_def)
  have "fsub Binary64 (fconv Binary32 Binary64 lit_1_0f) (fconst Binary64 3 10) =
      fadd Binary64 (Fin False (2 ^ 149 * 2 ^ 925)) (Fin True units_0_3)"
    by (simp only: c c03_value fsub_def fneg.simps simp_thms)
  also have "\<dots> = fround Binary64 False (2 ^ 1074 - units_0_3) 1"
    using fadd_pos [OF pos, where f = Binary64] unfolding z by (simp only: nat_int)
  also have "\<dots> = Fin False units_0_7"
  proof -
    have "units_0_7 < 2 ^ maxbits Binary64" by (simp add: units_0_7_def)
    then show ?thesis
      by (simp only: fround_def prec.simps one_minus_0_3 Let_def if_True)
  qed
  finally show ?thesis .
qed

lemma product_at_seven:
  "fmul Binary64 (Fin False units_0_7) (Fin False (7 * 2 ^ 149 * 2 ^ 925)) =
     Fin False (5516909543528857 * 2 ^ 1024)"
proof -
  have n: "units_0_7 * (7 * 2 ^ 149 * 2 ^ 925) = 44135276348230858 * 2 ^ 1021 * 2 ^ 1074"
    by (simp add: units_0_7_def)
  have b56: "bit_length 44135276348230858 = 56"
    by (rule bit_length_eqI) simp_all
  have "44135276348230858 * 2 ^ 1021 * 2 ^ 1074 div 2 ^ 1074 = (44135276348230858::nat) * 2 ^ 1021"
    by (rule nonzero_mult_div_cancel_right) simp
  then have bl: "bit_length (44135276348230858 * 2 ^ 1021 * 2 ^ 1074 div 2 ^ 1074) = 1077"
    using bit_length_mult_pow [of 44135276348230858 1021] b56 by (simp del: power_numeral)
  have "rne_div (44135276348230858 * (2 ^ 1021 * 2 ^ 1074)) (8 * (2 ^ 1021 * 2 ^ 1074)) =
      rne_div 44135276348230858 8"
    by (rule rne_div_cancel) simp
  also have "\<dots> = 5516909543528857"
    by (simp add: rne_div_def Let_def)
  finally have r: "rne_div (44135276348230858 * 2 ^ 1021 * 2 ^ 1074) (2 ^ 1074 * 2 ^ 1024) =
      5516909543528857"
    by simp
  have "round_mag 53 (44135276348230858 * 2 ^ 1021 * 2 ^ 1074) (2 ^ 1074) =
      5516909543528857 * 2 ^ 1024"
    using bl r by (simp add: round_mag_def del: power_numeral)
  moreover have "(5516909543528857::nat) * 2 ^ 1024 < 2 ^ 2098" by simp
  ultimately show ?thesis
    by (simp add: fround_def n del: power_numeral)
qed

lemma rounded_at_seven:
  "fconv Binary64 Binary32 (Fin False (5516909543528857 * 2 ^ 1024)) =
     Fin False (10276045 * 2 ^ 128)"
proof -
  have n: "5516909543528857 * 2 ^ 1024 * 2 ^ 149 = (5516909543528857::nat) * 2 ^ 99 * 2 ^ 1074"
    by simp
  have b53: "bit_length 5516909543528857 = 53"
    by (rule bit_length_eqI) simp_all
  have "5516909543528857 * 2 ^ 99 * 2 ^ 1074 div 2 ^ 1074 = (5516909543528857::nat) * 2 ^ 99"
    by (rule nonzero_mult_div_cancel_right) simp
  then have bl: "bit_length (5516909543528857 * 2 ^ 99 * 2 ^ 1074 div 2 ^ 1074) = 152"
    using bit_length_mult_pow [of 5516909543528857 99] b53 by (simp del: power_numeral)
  have "rne_div (5516909543528857 * (2 ^ 99 * 2 ^ 1074)) (2 ^ 29 * (2 ^ 99 * 2 ^ 1074)) =
      rne_div 5516909543528857 (2 ^ 29)"
    by (rule rne_div_cancel) simp
  also have "\<dots> = 10276045"
    by (simp add: rne_div_def Let_def)
  finally have r: "rne_div (5516909543528857 * 2 ^ 99 * 2 ^ 1074) (2 ^ 1074 * 2 ^ 128) = 10276045"
    by simp
  have "round_mag 24 (5516909543528857 * 2 ^ 99 * 2 ^ 1074) (2 ^ 1074) = 10276045 * 2 ^ 128"
    using bl r by (simp add: round_mag_def del: power_numeral)
  moreover have "(10276045::nat) * 2 ^ 128 < 2 ^ 277" by simp
  ultimately show ?thesis
    by (simp add: fround_def n del: power_numeral)
qed

lemma pulse_at_sine_one:
  assumes "sinf approx (fdiv Binary32 i period) = lit_1_0f"
  shows "make_pulses approx i period (Fin False (7 * 2 ^ 149)) = Fin False (10276045 * 2 ^ 128)"
proof -
  have m: "py_max (Fin False units_0_7) (Fin False 0) = Fin False units_0_7"
    by (simp add: py_max_def signed_def)
  have c: "fconv Binary32 Binary64 (Fin False (7 * 2 ^ 149)) = Fin False (7 * 2 ^ 149 * 2 ^ 925)"
    by (rule fconv_exact [OF representable_small [of 7 149]]) simp_all
  show ?thesis
    by (simp only: make_pulses_def assms difference_at_one m c product_at_seven rounded_at_seven)
qed

lemma pulse_exceeds_real_bound:
  assumes "sinf approx (fdiv Binary32 i period) = lit_1_0f"
  shows "valof Binary32 (Fin False (7 * 2 ^ 149)) = 7"
    and "7 / 10 * valof Binary32 (Fin False (7 * 2 ^ 149)) <
         valof Binary32 (make_pulses approx i period (Fin False (7 * 2 ^ 149)))"
proof -
  show v: "valof Binary32 (Fin False (7 * 2 ^ 149)) = 7" by simp
  have p: "(2::real) ^ 149 = 2 ^ 21 * 2 ^ 128"
    by (simp add: power_add [symmetric] del: power_numeral)
  have "valof Binary32 (Fin False (10276045 * 2 ^ 128)) = 10276045 * 2 ^ 128 / (2::real) ^ 149"
    by (simp del: power_numeral)
  also have "\<dots> = 10276045 * 2 ^ 128 / (2 ^ 21 * 2 ^ 128)"
    by (simp only: p)
  also have "\<dots> = 10276045 / 2 ^ 21"
    by (rule mult_divide_mult_cancel_right) simp
  finally have "valof Binary32 (Fin False (10276045 * 2 ^ 128)) = 10276045 / 2 ^ 21" .
  then show "7 / 10 * valof Binary32 (Fin False (7 * 2 ^ 149)) <
         valof Binary32 (make_pulses approx i period (Fin False (7 * 2 ^ 149)))"
    unfolding pulse_at_sine_one [OF assms] v by simp
qed






section \<open>The claims\<close>

text \<open>
  Claim C1. In the C program, for every index \<open>i < N\<close> with \<open>N = 10000\<close>, after the
  initialisation \<open>a[i] = 1.0\<close>, \<open>b[i] = 2.0\<close>, the kernel and the copy of the result back
  to the host, \<open>out[i]\<close> is the \<^verbatim>\<open>float\<close> sum of \<open>a[i]\<close> and \<open>b[i]\<close>; this sum is exactly
  \<open>3.0\<close>, so it is within \<open>1e-6\<close> of \<open>a[i] + b[i]\<close>, and the program's own test accepts it.
  This holds whatever the allocated memory contained before.
\<close>

theorem computed_out_is_sum:
  "\<exists>s. run compute (initial hg dg) = Inr s \<and>
     (\<forall>i<N. load (hmem s) (vars s var_a) i = Inr lit_1_0f \<and>
            load (hmem s) (vars s var_b) i = Inr lit_2_0f \<and>
            load (hmem s) (vars s var_out) i = Inr (fadd Binary32 lit_1_0f lit_2_0f)) \<and>
     valof Binary32 lit_1_0f = 1 \<and> valof Binary32 lit_2_0f = 2 \<and>
     is_finite (fadd Binary32 lit_1_0f lit_2_0f) \<and>
     valof Binary32 (fadd Binary32 lit_1_0f lit_2_0f) = 3 \<and>
     \<bar>valof Binary32 (fadd Binary32 lit_1_0f lit_2_0f) -
        (valof Binary32 lit_1_0f + valof Binary32 lit_2_0f)\<bar> < 1 / 10 ^ 6 \<and>
     assert_cond (fadd Binary32 lit_1_0f lit_2_0f) lit_1_0f lit_2_0f"
proof -
  have v: "valof Binary32 lit_1_0f = 1" "valof Binary32 lit_2_0f = 2"
    by (simp_all add: f32_one f32_two)
  have w: "valof Binary32 (fadd Binary32 lit_1_0f lit_2_0f) = 3"
    "is_finite (fadd Binary32 lit_1_0f lit_2_0f)"
    by (simp_all add: f32_one_plus_two)
  show ?thesis
    by (rule exI [of _ "computed hg dg"])
       (simp add: compute_result computed_loads v w assert_cond_three)
qed

theorem computed_out_is_sum_witness:
  "(0::nat) < N \<and>
   (\<exists>s. run compute (initial (\<lambda>k j. NaN) (\<lambda>k j. NaN)) = Inr s \<and>
      load (hmem s) (vars s var_out) 0 = Inr (fadd Binary32 lit_1_0f lit_2_0f)) \<and>
   valof Binary32 (fadd Binary32 lit_1_0f lit_2_0f) = 3"
proof -
  from computed_out_is_sum [of "\<lambda>k j. NaN" "\<lambda>k j. NaN"] obtain s where
    r: "run compute (initial (\<lambda>k j. NaN) (\<lambda>k j. NaN)) = Inr s" and
    a: "\<forall>i<N. load (hmem s) (vars s var_a) i = Inr lit_1_0f \<and>
            load (hmem s) (vars s var_b) i = Inr lit_2_0f \<and>
            load (hmem s) (vars s var_out) i = Inr (fadd Binary32 lit_1_0f lit_2_0f)" and
    v: "valof Binary32 (fadd Binary32 lit_1_0f lit_2_0f) = 3"
    by (elim exE conjE)
  from a [rule_format, OF N_pos]
  have "load (hmem s) (vars s var_out) 0 = Inr (fadd Binary32 lit_1_0f lit_2_0f)"
    by (elim conjE)
  with r v N_pos show ?thesis by (intro conjI exI [of _ s])
qed

text \<open>
  Claim C5. \<open>main\<close> is a sequence of twenty statements, and it runs them in this order and
  with these effects, whatever the fresh memory holds. The three \<^verbatim>\<open>malloc\<close> calls create
  three host blocks of \<open>N\<close> cells and the initialisation loop fills \<open>a\<close> with \<open>1.0\<close> and \<open>b\<close>
  with \<open>2.0\<close>. Then the three \<^verbatim>\<open>cudaMalloc\<close> calls create three device blocks of \<open>N\<close>
  cells; the two host-to-device copies make the device blocks of \<open>d_a\<close> and \<open>d_b\<close> equal to
  \<open>a\<close> and \<open>b\<close>; the one launch, of one thread, fills the device block of \<open>d_out\<close> with the
  sums; the device-to-host copy makes the host block \<open>out\<close> equal to it. Then every element
  of \<open>out\<close> is checked against \<open>a[i] + b[i]\<close> in index order: were \<open>out\<close> to hold values \<open>zs\<close>
  whose first element failing the check is \<open>zs[i]\<close>, the program would end there in the
  failed assertion \<open>i\<close>; with the values computed, all \<open>N\<close> checks pass. Then the two
  prints, the three \<^verbatim>\<open>cudaFree\<close> calls, after which no device block is left, and the three
  \<^verbatim>\<open>free\<close> calls, after which no host block is left. The calls recorded at the end are
  exactly these, in this order.
\<close>

theorem main_steps_in_order:
  "length (compute @ finish) = 20 \<and>
   (\<exists>s. after 3 hg dg = Inr s \<and>
     calls s = [Call_malloc var_a N, Call_malloc var_b N, Call_malloc var_out N] \<and>
     vars s var_a = (0, 0) \<and> vars s var_b = (1, 0) \<and> vars s var_out = (2, 0) \<and>
     hmem s = [0 \<mapsto> map (hg 0) [0..<N], 1 \<mapsto> map (hg 1) [0..<N], 2 \<mapsto> map (hg 2) [0..<N]] \<and>
     dmem (dev s) = Map.empty) \<and>
   (\<exists>s. after 4 hg dg = Inr s \<and>
     calls s = [Call_malloc var_a N, Call_malloc var_b N, Call_malloc var_out N] \<and>
     hmem s = [0 \<mapsto> replicate N lit_1_0f, 1 \<mapsto> replicate N lit_2_0f,
               2 \<mapsto> map (hg 2) [0..<N]] \<and>
     dmem (dev s) = Map.empty) \<and>
   (\<exists>s. after 7 hg dg = Inr s \<and>
     calls s = [Call_malloc var_a N, Call_malloc var_b N, Call_malloc var_out N,
        Call_cudaMalloc var_d_a N, Call_cudaMalloc var_d_b N, Call_cudaMalloc var_d_out N] \<and>
     vars s var_d_a = (0, 0) \<and> vars s var_d_b = (1, 0) \<and> vars s var_d_out = (2, 0) \<and>
     dmem (dev s) = [0 \<mapsto> map (dg 0) [0..<N], 1 \<mapsto> map (dg 1) [0..<N],
                     2 \<mapsto> map (dg 2) [0..<N]]) \<and>
   (\<exists>s. after 9 hg dg = Inr s \<and>
     calls s = [Call_malloc var_a N, Call_malloc var_b N, Call_malloc var_out N,
        Call_cudaMalloc var_d_a N, Call_cudaMalloc var_d_b N, Call_cudaMalloc var_d_out N,
        Call_cudaMemcpy var_d_a var_a N cudaMemcpyHostToDevice,
        Call_cudaMemcpy var_d_b var_b N cudaMemcpyHostToDevice] \<and>
     dmem (dev s) = [0 \<mapsto> replicate N lit_1_0f, 1 \<mapsto> replicate N lit_2_0f,
                     2 \<mapsto> map (dg 2) [0..<N]]) \<and>
   (\<exists>s. after 10 hg dg = Inr s \<and>
     calls s = [Call_malloc var_a N, Call_malloc var_b N, Call_malloc var_out N,
        Call_cudaMalloc var_d_a N, Call_cudaMalloc var_d_b N, Call_cudaMalloc var_d_out N,
        Call_cudaMemcpy var_d_a var_a N cudaMemcpyHostToDevice,
        Call_cudaMemcpy var_d_b var_b N cudaMemcpyHostToDevice,
        Call_launch 1 1] \<and>
     dmem (dev s) = [0 \<mapsto> replicate N lit_1_0f, 1 \<mapsto> replicate N lit_2_0f,
                     2 \<mapsto> replicate N (fadd Binary32 lit_1_0f lit_2_0f)] \<and>
     klog (dev s) = ThreadStart # map Write [0..<N] \<and>
     hmem s = [0 \<mapsto> replicate N lit_1_0f, 1 \<mapsto> replicate N lit_2_0f,
               2 \<mapsto> map (hg 2) [0..<N]]) \<and>
   (\<exists>s. after 11 hg dg = Inr s \<and>
     calls s = [Call_malloc var_a N, Call_malloc var_b N, Call_malloc var_out N,
        Call_cudaMalloc var_d_a N, Call_cudaMalloc var_d_b N, Call_cudaMalloc var_d_out N,
        Call_cudaMemcpy var_d_a var_a N cudaMemcpyHostToDevice,
        Call_cudaMemcpy var_d_b var_b N cudaMemcpyHostToDevice,
        Call_launch 1 1,
        Call_cudaMemcpy var_out var_d_out N cudaMemcpyDeviceToHost] \<and>
     hmem s = [0 \<mapsto> replicate N lit_1_0f, 1 \<mapsto> replicate N lit_2_0f,
               2 \<mapsto> replicate N (fadd Binary32 lit_1_0f lit_2_0f)]) \<and>
   (length zs = N \<and> i < N \<and> (\<forall>k<i. assert_cond (zs ! k) lit_1_0f lit_2_0f) \<and>
      \<not> assert_cond (zs ! i) lit_1_0f lit_2_0f \<longrightarrow>
    (\<exists>s. after 11 hg dg = Inr s \<and>
       run (drop 11 (compute @ finish)) (with_out s zs) = Inl (AssertionFailed i))) \<and>
   (\<exists>s. after 12 hg dg = Inr s \<and>
     calls s = [Call_malloc var_a N, Call_malloc var_b N, Call_malloc var_out N,
        Call_cudaMalloc var_d_a N, Call_cudaMalloc var_d_b N, Call_cudaMalloc var_d_out N,
        Call_cudaMemcpy var_d_a var_a N cudaMemcpyHostToDevice,
        Call_cudaMemcpy var_d_b var_b N cudaMemcpyHostToDevice,
        Call_launch 1 1,
        Call_cudaMemcpy var_out var_d_out N cudaMemcpyDeviceToHost] @
        map Call_assert [0..<N]) \<and>
   (\<exists>s. after 14 hg dg = Inr s \<and>
     stdout s = [Formatted ''out[0] = %f'' (fconv Binary32 Binary64 (fadd Binary32 lit_1_0f lit_2_0f)),
                 Text ''PASSED''] \<and>
     dmem (dev s) = [0 \<mapsto> replicate N lit_1_0f, 1 \<mapsto> replicate N lit_2_0f,
                     2 \<mapsto> replicate N (fadd Binary32 lit_1_0f lit_2_0f)]) \<and>
   (\<exists>s. after 17 hg dg = Inr s \<and>
     hmem s = [0 \<mapsto> replicate N lit_1_0f, 1 \<mapsto> replicate N lit_2_0f,
               2 \<mapsto> replicate N (fadd Binary32 lit_1_0f lit_2_0f)] \<and>
     dmem (dev s) = Map.empty) \<and>
   (\<exists>s. after 20 hg dg = Inr s \<and> main hg dg = Inr s \<and>
     hmem s = Map.empty \<and> dmem (dev s) = Map.empty \<and>
     calls s =
       [Call_malloc var_a N, Call_malloc var_b N, Call_malloc var_out N,
        Call_cudaMalloc var_d_a N, Call_cudaMalloc var_d_b N, Call_cudaMalloc var_d_out N,
        Call_cudaMemcpy var_d_a var_a N cudaMemcpyHostToDevice,
        Call_cudaMemcpy var_d_b var_b N cudaMemcpyHostToDevice,
        Call_launch 1 1,
        Call_cudaMemcpy var_out var_d_out N cudaMemcpyDeviceToHost] @
       map Call_assert [0..<N] @
       [Call_printf, Call_printf,
        Call_cudaFree var_d_a, Call_cudaFree var_d_b, Call_cudaFree var_d_out,
        Call_free var_a, Call_free var_b, Call_free var_out])"
proof -
  have len: "length (compute @ finish) = 20"
    by (simp add: compute_def finish_def)
  have fails: "length zs = N \<and> i < N \<and> (\<forall>k<i. assert_cond (zs ! k) lit_1_0f lit_2_0f) \<and>
      \<not> assert_cond (zs ! i) lit_1_0f lit_2_0f \<longrightarrow>
    (\<exists>s. after 11 hg dg = Inr s \<and>
       run (drop 11 (compute @ finish)) (with_out s zs) = Inl (AssertionFailed i))"
  proof
    assume a: "length zs = N \<and> i < N \<and> (\<forall>k<i. assert_cond (zs ! k) lit_1_0f lit_2_0f) \<and>
      \<not> assert_cond (zs ! i) lit_1_0f lit_2_0f"
    then have "length zs = N" "i < N" "\<forall>k<i. assert_cond (zs ! k) lit_1_0f lit_2_0f"
      "\<not> assert_cond (zs ! i) lit_1_0f lit_2_0f"
      by simp_all
    then show "\<exists>s. after 11 hg dg = Inr s \<and>
       run (drop 11 (compute @ finish)) (with_out s zs) = Inl (AssertionFailed i)"
      by (rule after_11_fails)
  qed
  from len after_3 after_4 after_7 after_9 after_10 after_11_calls fails after_12_calls
    after_14_out after_17_blocks after_20_end
  show ?thesis by (intro conjI)
qed

theorem main_steps_in_order_witness:
  "length (replicate N NaN) = N \<and> 0 < N \<and>
   \<not> assert_cond (replicate N NaN ! 0) lit_1_0f lit_2_0f \<and>
   (\<exists>s. after 11 (\<lambda>k j. NaN) (\<lambda>k j. NaN) = Inr s \<and>
      run (drop 11 (compute @ finish)) (with_out s (replicate N NaN)) = Inl (AssertionFailed 0)) \<and>
   (\<exists>s. main (\<lambda>k j. NaN) (\<lambda>k j. NaN) = Inr s \<and>
      hmem s = Map.empty \<and> dmem (dev s) = Map.empty)"
proof -
  let ?g = "\<lambda>k j::nat. NaN"
  have l: "length (replicate N NaN) = N" by simp
  have n: "\<not> assert_cond (replicate N NaN ! 0) lit_1_0f lit_2_0f"
    using N_pos by (simp add: assert_cond_def fsub_def)
  have v: "\<forall>k<0::nat. assert_cond (replicate N NaN ! k) lit_1_0f lit_2_0f" by simp
  note t = main_steps_in_order [of ?g ?g "replicate N NaN" 0]
  from t l N_pos v n
  have a: "\<exists>s. after 11 ?g ?g = Inr s \<and>
      run (drop 11 (compute @ finish)) (with_out s (replicate N NaN)) = Inl (AssertionFailed 0)"
    by (elim conjE) (erule impE, intro conjI, assumption+)
  from t have "\<exists>s. after 20 ?g ?g = Inr s \<and> main ?g ?g = Inr s \<and>
     hmem s = Map.empty \<and> dmem (dev s) = Map.empty \<and>
     calls s =
       [Call_malloc var_a N, Call_malloc var_b N, Call_malloc var_out N,
        Call_cudaMalloc var_d_a N, Call_cudaMalloc var_d_b N, Call_cudaMalloc var_d_out N,
        Call_cudaMemcpy var_d_a var_a N cudaMemcpyHostToDevice,
        Call_cudaMemcpy var_d_b var_b N cudaMemcpyHostToDevice,
        Call_launch 1 1,
        Call_cudaMemcpy var_out var_d_out N cudaMemcpyDeviceToHost] @
       map Call_assert [0..<N] @
       [Call_printf, Call_printf,
        Call_cudaFree var_d_a, Call_cudaFree var_d_b, Call_cudaFree var_d_out,
        Call_free var_a, Call_free var_b, Call_free var_out]"
    by (elim conjE)
  then obtain s where "main ?g ?g = Inr s" "hmem s = Map.empty" "dmem (dev s) = Map.empty"
    by (elim exE conjE)
  then have m: "\<exists>s. main ?g ?g = Inr s \<and> hmem s = Map.empty \<and> dmem (dev s) = Map.empty"
    by (intro exI [of _ s] conjI)
  from l N_pos n a m show ?thesis by (intro conjI)
qed

text \<open>
  Claim C6. The program launches \<open>vector_add\<close> with one block of one thread. Such a
  launch runs the kernel body exactly once, and the loop stores to the indices \<open>0\<close> to
  \<open>n - 1\<close> one after the other in increasing order, for every \<open>n\<close> and all buffers for
  which the kernel returns. In the program this is the single launch, with \<open>n = N\<close>.
\<close>

theorem single_thread_sequential:
  "(\<forall>out a b n s s'. launch 1 1 (vector_add out a b n) s = Inr s' \<longrightarrow>
      klog s' = klog s @ ThreadStart # map Write [0..<nat n]) \<and>
   (\<exists>s. main hg dg = Inr s \<and>
      filter (\<lambda>c. case c of Call_launch g b \<Rightarrow> True | _ \<Rightarrow> False) (calls s) = [Call_launch 1 1] \<and>
      klog (dev s) = ThreadStart # map Write [0..<N])"
proof
  show "\<forall>out a b n s s'. launch 1 1 (vector_add out a b n) s = Inr s' \<longrightarrow>
      klog s' = klog s @ ThreadStart # map Write [0..<nat n]"
  proof (intro allI impI)
    fix out a b n s s'
    assume "launch 1 1 (vector_add out a b n) s = Inr s'"
    then have "vector_add_loop out a b n 0 (s\<lparr>klog := klog s @ [ThreadStart]\<rparr>) = Inr s'"
      by (simp add: launch_def run_threads_one vector_add_def split: sum.splits)
    from vector_add_loop_klog [OF this] show "klog s' = klog s @ ThreadStart # map Write [0..<nat n]"
      by simp
  qed
  have "filter (\<lambda>c. case c of Call_launch g b \<Rightarrow> True | _ \<Rightarrow> False) (map Call_assert xs) = []" for xs
    by (induction xs) simp_all
  then show "\<exists>s. main hg dg = Inr s \<and>
      filter (\<lambda>c. case c of Call_launch g b \<Rightarrow> True | _ \<Rightarrow> False) (calls s) = [Call_launch 1 1] \<and>
      klog (dev s) = ThreadStart # map Write [0..<N]"
    by (intro exI [of _ "finished hg dg"]) (simp add: main_result finished_def computed_def)
qed

theorem single_thread_sequential_witness:
  "launch 1 1 (vector_add (2, 0) (0, 0) (1, 0) 2) tiny =
     Inr (tiny\<lparr>dmem := (dmem tiny)(2 \<mapsto>
            [fadd Binary32 lit_1_0f lit_2_0f, fadd Binary32 lit_1_0f lit_2_0f]),
               klog := [ThreadStart, Write 0, Write 1]\<rparr>) \<and>
   klog (tiny\<lparr>klog := [ThreadStart, Write 0, Write 1]\<rparr>) =
     klog tiny @ ThreadStart # map Write [0..<nat 2]"
proof -
  have l: "launch 1 1 (vector_add (2, 0) (0, 0) (1, 0) 2) tiny =
     Inr (tiny\<lparr>dmem := (dmem tiny)(2 \<mapsto>
            [fadd Binary32 lit_1_0f lit_2_0f, fadd Binary32 lit_1_0f lit_2_0f]),
               klog := [ThreadStart, Write 0, Write 1]\<rparr>)"
  proof -
    have "vector_add (2, 0) (0, 0) (1, 0) (int 2) (tiny\<lparr>klog := [ThreadStart]\<rparr>) =
       Inr (tiny\<lparr>klog := [ThreadStart]\<rparr>
         \<lparr>dmem := (dmem (tiny\<lparr>klog := [ThreadStart]\<rparr>))(2 \<mapsto>
            pairwise_sum (the (dmem (tiny\<lparr>klog := [ThreadStart]\<rparr>) 0))
              (the (dmem (tiny\<lparr>klog := [ThreadStart]\<rparr>) 1))),
          klog := klog (tiny\<lparr>klog := [ThreadStart]\<rparr>) @ map Write [0..<2]\<rparr>)"
      by (rule vector_add_closed) (simp_all add: tiny_def)
    moreover have "[0..<2] = [0, Suc 0]" by (simp add: upt_rec)
    ultimately show ?thesis
      by (simp add: launch_def run_threads_one tiny_def pairwise_sum_def)
  qed
  from single_thread_sequential [of "\<lambda>k j. NaN" "\<lambda>k j. NaN", THEN conjunct1, rule_format, OF l]
  have "klog (tiny\<lparr>dmem := (dmem tiny)(2 \<mapsto>
            [fadd Binary32 lit_1_0f lit_2_0f, fadd Binary32 lit_1_0f lit_2_0f]),
               klog := [ThreadStart, Write 0, Write 1]\<rparr>) =
     klog tiny @ ThreadStart # map Write [0..<nat 2]" .
  with l show ?thesis by simp
qed

text \<open>
  Claim C8 (as amended). Whenever the cells \<open>out[0..n-1]\<close>, \<open>a[0..n-1]\<close> and
  \<open>b[0..n-1]\<close> are allocated, \<open>vector_add(out, a, b, n)\<close> returns and changes no cell
  other than \<open>out[0]\<close> to \<open>out[n-1]\<close>; so \<open>a[0..n-1]\<close> (and likewise \<open>b[0..n-1]\<close>) is
  unchanged provided it does not overlap \<open>out[0..n-1]\<close>.
\<close>

theorem vector_add_frame:
  assumes "allocated (dmem s) out (nat n)"
    and "allocated (dmem s) a (nat n)"
    and "allocated (dmem s) b (nat n)"
  shows "\<exists>s'. vector_add out a b n s = Inr s' \<and>
           (\<forall>c. c \<notin> in_range out (nat n) \<longrightarrow> cell (dmem s') c = cell (dmem s) c) \<and>
           (in_range a (nat n) \<inter> in_range out (nat n) = {} \<longrightarrow>
              (\<forall>j < nat n. load (dmem s') a j = load (dmem s) a j)) \<and>
           (in_range b (nat n) \<inter> in_range out (nat n) = {} \<longrightarrow>
              (\<forall>j < nat n. load (dmem s') b j = load (dmem s) b j))"
proof -
  obtain s' where s': "vector_add out a b n s = Inr s'"
    using vector_add_loop_total [OF assms, of 0] by (auto simp: vector_add_def)
  have frame: "cell (dmem s') c = cell (dmem s) c" if "c \<notin> in_range out (nat n)" for c
    using vector_add_loop_frame [of out a b n 0 s s' c] s' that by (simp add: vector_add_def)
  have keep: "load (dmem s') p j = load (dmem s) p j"
    if "in_range p (nat n) \<inter> in_range out (nat n) = {}" and "j < nat n" for p j
  proof -
    from that(2) have "(fst p, snd p + j) \<in> in_range p (nat n)"
      by (simp add: in_range_def)
    with that(1) have "(fst p, snd p + j) \<notin> in_range out (nat n)" by blast
    then show ?thesis by (simp add: load_cell frame)
  qed
  from s' frame keep show ?thesis by blast
qed

theorem vector_add_frame_witness:
  "allocated (dmem tiny) (2, 0) (nat 2) \<and> allocated (dmem tiny) (0, 0) (nat 2) \<and>
   allocated (dmem tiny) (1, 0) (nat 2) \<and>
   in_range (0, 0) (nat 2) \<inter> in_range (2, 0) (nat 2) = {} \<and>
   in_range (1, 0) (nat 2) \<inter> in_range (2, 0) (nat 2) = {} \<and> (1::nat) < nat 2 \<and>
   (3, 7) \<notin> in_range (2, 0) (nat 2) \<and>
   (\<exists>s'. vector_add (2, 0) (0, 0) (1, 0) 2 tiny = Inr s' \<and>
      cell (dmem s') (3, 7) = cell (dmem tiny) (3, 7) \<and>
      load (dmem s') (0, 0) 1 = Inr lit_1_0f \<and> load (dmem s') (1, 0) 1 = Inr lit_2_0f)"
proof -
  have al: "allocated (dmem tiny) (2, 0) (nat 2)" "allocated (dmem tiny) (0, 0) (nat 2)"
    "allocated (dmem tiny) (1, 0) (nat 2)"
    by (simp_all add: allocated_def tiny_def)
  have dj: "in_range (0, 0) (nat 2) \<inter> in_range (2, 0) (nat 2) = {}"
    "in_range (1, 0) (nat 2) \<inter> in_range (2, 0) (nat 2) = {}"
    "(3, 7) \<notin> in_range (2, 0) (nat 2)"
    by (auto simp: in_range_def)
  have lt: "(1::nat) < nat 2" by simp
  from vector_add_frame [OF al] obtain s' where
    r: "vector_add (2, 0) (0, 0) (1, 0) 2 tiny = Inr s'" and
    f: "\<forall>c. c \<notin> in_range (2, 0) (nat 2) \<longrightarrow> cell (dmem s') c = cell (dmem tiny) c" and
    ka: "in_range (0, 0) (nat 2) \<inter> in_range (2, 0) (nat 2) = {} \<longrightarrow>
              (\<forall>j < nat 2. load (dmem s') (0, 0) j = load (dmem tiny) (0, 0) j)" and
    kb: "in_range (1, 0) (nat 2) \<inter> in_range (2, 0) (nat 2) = {} \<longrightarrow>
              (\<forall>j < nat 2. load (dmem s') (1, 0) j = load (dmem tiny) (1, 0) j)"
    by (elim exE conjE)
  from f dj(3) have c: "cell (dmem s') (3, 7) = cell (dmem tiny) (3, 7)" by simp
  from ka dj(1) lt have "load (dmem s') (0, 0) 1 = load (dmem tiny) (0, 0) 1" by simp
  then have la: "load (dmem s') (0, 0) 1 = Inr lit_1_0f" by (simp add: load_def tiny_def)
  from kb dj(2) lt have "load (dmem s') (1, 0) 1 = load (dmem tiny) (1, 0) 1" by simp
  then have lb: "load (dmem s') (1, 0) 1 = Inr lit_2_0f" by (simp add: load_def tiny_def)
  from al dj lt r c la lb show ?thesis by (intro conjI exI [of _ s'])
qed

text \<open>
  The claim as stated fails when \<open>out\<close> and \<open>a\<close> are the same pointer: the call
  \<open>vector_add(p, p, q, 1)\<close> with \<open>p[0] = 1.0\<close> and \<open>q[0] = 2.0\<close> returns and leaves
  \<open>3.0\<close> in \<open>p[0]\<close>, so the input buffer \<open>a\<close> has changed.
\<close>

theorem vector_add_alias_counterexample:
  "\<not> (\<forall>out a b n s s'. 0 \<le> n \<longrightarrow> vector_add out a b n s = Inr s' \<longrightarrow>
        (\<forall>j < nat n. load (dmem s') a j = load (dmem s) a j))"
proof
  assume h: "\<forall>out a b n s s'. 0 \<le> n \<longrightarrow> vector_add out a b n s = Inr s' \<longrightarrow>
        (\<forall>j < nat n. load (dmem s') a j = load (dmem s) a j)"
  let ?s = "\<lparr>dmem = [0 \<mapsto> [lit_1_0f], 1 \<mapsto> [lit_2_0f]], klog = []\<rparr>"
  let ?s' = "\<lparr>dmem = [0 \<mapsto> [fadd Binary32 lit_1_0f lit_2_0f], 1 \<mapsto> [lit_2_0f]],
              klog = [Write 0]\<rparr>"
  have run: "vector_add (0, 0) (0, 0) (1, 0) 1 ?s = Inr ?s'"
    by (simp add: vector_add_def vector_add_loop.simps load_def store_def fun_eq_iff)
  from h [rule_format, OF _ run, of 0] have "load (dmem ?s') (0, 0) 0 = load (dmem ?s) (0, 0) 0"
    by simp
  then have "fadd Binary32 lit_1_0f lit_2_0f = lit_1_0f"
    by (simp add: load_def)
  then have "Fin False (3 * 2 ^ 149) = lit_1_0f"
    by (simp only: f32_one_plus_two)
  then show False by (simp add: f32_one)
qed

text \<open>
  Claim C2. Take the state of \<open>main\<close> after the copy back, with any binary32 values
  \<open>zs\<close> in the host buffer \<open>out\<close> (\<open>a[i] = 1.0\<close> and \<open>b[i] = 2.0\<close> as initialised). The rest of
  \<open>main\<close> ends in a failed assertion if and only if some \<open>out[i]\<close> deviates from the sum
  \<open>a[i] + b[i]\<close> by more than \<open>1e-6\<close> (or is not a number); the failure is that of the first
  such element, and nothing runs after it. Otherwise the run ends normally, having printed
  \<open>out[0]\<close> and \<open>PASSED\<close>. It never ends in any other way, and \<open>main\<close> itself is the
  instance in which \<open>out\<close> holds the sums computed by the kernel.
\<close>

theorem main_aborts_iff_deviation:
  assumes "length zs = N" and "list_all (is_fp Binary32) zs"
  shows "((\<exists>i. run finish (with_out (computed hg dg) zs) = Inl (AssertionFailed i)) \<longleftrightarrow>
            (\<exists>i<N. \<not> within_tolerance (zs ! i) lit_1_0f lit_2_0f)) \<and>
         (\<forall>i. run finish (with_out (computed hg dg) zs) = Inl (AssertionFailed i) \<longrightarrow>
            i < N \<and> \<not> within_tolerance (zs ! i) lit_1_0f lit_2_0f \<and>
            (\<forall>k<i. within_tolerance (zs ! k) lit_1_0f lit_2_0f)) \<and>
         ((\<forall>i<N. within_tolerance (zs ! i) lit_1_0f lit_2_0f) \<longrightarrow>
            (\<exists>s'. run finish (with_out (computed hg dg) zs) = Inr s' \<and>
               stdout s' = [Formatted ''out[0] = %f'' (fconv Binary32 Binary64 (zs ! 0)),
                            Text ''PASSED''])) \<and>
         run finish (with_out (computed hg dg) zs) \<noteq> Inl Segfault \<and>
         main hg dg =
           run finish (with_out (computed hg dg) (replicate N (fadd Binary32 lit_1_0f lit_2_0f)))"
proof -
  let ?r = "run finish (with_out (computed hg dg) zs)"
  let ?P = "\<lambda>k. within_tolerance (zs ! k) lit_1_0f lit_2_0f"
  have iff: "assert_cond (zs ! k) lit_1_0f lit_2_0f \<longleftrightarrow> ?P k" if "k < N" for k
  proof -
    from that assms(1) have "zs ! k \<in> set zs" by simp
    with assms(2) have "is_fp Binary32 (zs ! k)" by (simp add: list_all_iff)
    then show ?thesis by (rule assert_cond_iff)
  qed
  have cases: "(\<forall>k<N. ?P k) \<or> (\<exists>i<N. \<not> ?P i \<and> (\<forall>k<i. ?P k))"
  proof (cases "\<forall>k<N. ?P k")
    case True
    then show ?thesis by simp
  next
    case False
    then have "\<exists>i. i < N \<and> \<not> ?P i" by simp
    then have "\<exists>i. (i < N \<and> \<not> ?P i) \<and> (\<forall>k<i. \<not> (k < N \<and> \<not> ?P k))"
      by (rule exists_least_iff [of "\<lambda>i. i < N \<and> \<not> ?P i", THEN iffD1])
    then obtain i where i: "i < N" "\<not> ?P i" and least: "\<forall>k<i. \<not> (k < N \<and> \<not> ?P k)"
      by (elim exE conjE)
    have "?P k" if "k < i" for k
    proof -
      from that i(1) have "k < N" by simp
      with least that show ?thesis by simp
    qed
    with i show ?thesis by (intro disjI2 exI [of _ i]) simp
  qed
  have seg: "Inl (AssertionFailed i) \<noteq> (Inl Segfault :: failure + state)" for i
    by simp
  from cases show ?thesis
  proof
    assume all: "\<forall>k<N. ?P k"
    then have "\<forall>k<N. assert_cond (zs ! k) lit_1_0f lit_2_0f" by (simp add: iff)
    from finish_passes [OF assms(1) this, of hg dg] obtain s' where
      r: "?r = Inr s'" and
      o: "stdout s' = [Formatted ''out[0] = %f'' (fconv Binary32 Binary64 (zs ! 0)), Text ''PASSED'']"
      by (elim exE conjE)
    have c1: "(\<exists>i. ?r = Inl (AssertionFailed i)) \<longleftrightarrow> (\<exists>i<N. \<not> ?P i)"
      using all by (simp add: r)
    have c2: "\<forall>i. ?r = Inl (AssertionFailed i) \<longrightarrow> i < N \<and> \<not> ?P i \<and> (\<forall>k<i. ?P k)"
      by (simp add: r)
    have c3: "(\<forall>i<N. ?P i) \<longrightarrow> (\<exists>s'. ?r = Inr s' \<and>
        stdout s' = [Formatted ''out[0] = %f'' (fconv Binary32 Binary64 (zs ! 0)), Text ''PASSED''])"
      using o by (simp add: r)
    have c4: "?r \<noteq> Inl Segfault" by (simp add: r)
    from c1 c2 c3 c4 main_is_finish show ?thesis by (intro conjI)
  next
    assume "\<exists>i<N. \<not> ?P i \<and> (\<forall>k<i. ?P k)"
    then obtain i where i: "i < N" and n: "\<not> ?P i" and b: "\<forall>k<i. ?P k"
      by (elim exE conjE)
    from i n have n': "\<not> assert_cond (zs ! i) lit_1_0f lit_2_0f" by (simp add: iff)
    from i b have b': "\<forall>k<i. assert_cond (zs ! k) lit_1_0f lit_2_0f" by (simp add: iff)
    have r: "?r = Inl (AssertionFailed i)"
      by (rule finish_fails [OF assms(1) i b' n'])
    have "\<exists>i. ?r = Inl (AssertionFailed i)" using r by (rule exI)
    moreover have "\<exists>i<N. \<not> ?P i" using i n by (intro exI [of _ i] conjI)
    ultimately have c1: "(\<exists>i. ?r = Inl (AssertionFailed i)) \<longleftrightarrow> (\<exists>i<N. \<not> ?P i)"
      by (simp only: simp_thms)
    have c2: "\<forall>i. ?r = Inl (AssertionFailed i) \<longrightarrow> i < N \<and> \<not> ?P i \<and> (\<forall>k<i. ?P k)"
      using i n b by (simp add: r)
    have c3: "(\<forall>i<N. ?P i) \<longrightarrow> (\<exists>s'. ?r = Inr s' \<and>
        stdout s' = [Formatted ''out[0] = %f'' (fconv Binary32 Binary64 (zs ! 0)), Text ''PASSED''])"
    proof
      assume "\<forall>i<N. ?P i"
      with i n show "\<exists>s'. ?r = Inr s' \<and>
        stdout s' = [Formatted ''out[0] = %f'' (fconv Binary32 Binary64 (zs ! 0)), Text ''PASSED'']"
        by simp
    qed
    have c4: "?r \<noteq> Inl Segfault" unfolding r by (rule seg)
    from c1 c2 c3 c4 main_is_finish show ?thesis by (intro conjI)
  qed
qed

theorem main_aborts_iff_deviation_witness:
  "length (replicate N (fadd Binary32 lit_1_0f lit_2_0f)) = N \<and>
   list_all (is_fp Binary32) (replicate N (fadd Binary32 lit_1_0f lit_2_0f)) \<and>
   (\<exists>s'. main (\<lambda>k j. NaN) (\<lambda>k j. NaN) = Inr s' \<and>
      stdout s' = [Formatted ''out[0] = %f''
                     (fconv Binary32 Binary64 (replicate N (fadd Binary32 lit_1_0f lit_2_0f) ! 0)),
                   Text ''PASSED'']) \<and>
   length (replicate N NaN) = N \<and> list_all (is_fp Binary32) (replicate N NaN) \<and>
   (\<exists>i. run finish (with_out (computed (\<lambda>k j. NaN) (\<lambda>k j. NaN)) (replicate N NaN)) =
      Inl (AssertionFailed i))"
proof -
  let ?t = "fadd Binary32 lit_1_0f lit_2_0f"
  let ?g = "\<lambda>k j::nat. NaN"
  have l: "length (replicate N ?t) = N" by simp
  have "is_fp Binary32 ?t"
    by (simp only: f32_one_plus_two is_fp.simps rep_units)
  then have f: "list_all (is_fp Binary32) (replicate N ?t)"
    by (simp add: list_all_iff)
  have w: "\<forall>i<N. within_tolerance (replicate N ?t ! i) lit_1_0f lit_2_0f"
    by (simp add: within_tolerance_def valof_units f32_one_plus_two)
  note t = main_aborts_iff_deviation [OF l f, of ?g ?g]
  from t w have "\<exists>s'. run finish (with_out (computed ?g ?g) (replicate N ?t)) = Inr s' \<and>
      stdout s' = [Formatted ''out[0] = %f'' (fconv Binary32 Binary64 (replicate N ?t ! 0)),
                   Text ''PASSED'']"
    by (elim conjE) (erule impE, assumption)
  moreover from t have "main ?g ?g = run finish (with_out (computed ?g ?g) (replicate N ?t))"
    by (elim conjE)
  ultimately have p: "\<exists>s'. main ?g ?g = Inr s' \<and>
      stdout s' = [Formatted ''out[0] = %f'' (fconv Binary32 Binary64 (replicate N ?t ! 0)),
                   Text ''PASSED'']"
    by simp
  have l': "length (replicate N NaN) = N" by simp
  have f': "list_all (is_fp Binary32) (replicate N NaN)" by (simp add: list_all_iff)
  have d: "\<exists>i<N. \<not> within_tolerance (replicate N NaN ! i) lit_1_0f lit_2_0f"
    using N_pos by (intro exI [of _ 0]) (simp add: within_tolerance_def)
  from main_aborts_iff_deviation [OF l' f', of ?g ?g] d
  have a: "\<exists>i. run finish (with_out (computed ?g ?g) (replicate N NaN)) = Inl (AssertionFailed i)"
    by (elim conjE) simp
  from l f p l' f' a show ?thesis by (intro conjI)
qed

text \<open>
  Claim C3. In the notebook, with \<open>n = 100000\<close>, \<^verbatim>\<open>float32\<close> elements \<open>x[i] = i\<close> and
  \<open>y[i] = 2 * x[i]\<close>, the array that \<^verbatim>\<open>add_ufunc\<close> computes on the device and
  \<^verbatim>\<open>copy_to_host\<close> returns has shape \<open>(n,)\<close> and type \<^verbatim>\<open>float32\<close>, and its element \<open>i\<close> is
  the \<^verbatim>\<open>float32\<close> sum of \<open>x[i]\<close> and \<open>y[i]\<close>, which is exactly \<open>3 * i\<close>, for every \<open>i < n\<close>;
  its first ten elements are \<open>0, 3, 6, 9, 12, 15, 18, 21, 24, 27\<close>.
\<close>

theorem add_ufunc_sum_exact:
  "\<exists>r. out_host g = Inr r \<and> shape r = [n_nb] \<and> dtype r = float32 \<and>
      length (elems r) = n_nb \<and>
      (\<forall>i<n_nb. valof Binary32 (elems x_nb ! i) = real i \<and>
                valof Binary32 (elems y_nb ! i) = 2 * real i \<and>
                elems r ! i = add_ufunc (elems x_nb ! i) (elems y_nb ! i) \<and>
                is_finite (elems r ! i) \<and>
                valof Binary32 (elems r ! i) = 3 * real i) \<and>
      map (valof Binary32) (take 10 (elems r)) = [0, 3, 6, 9, 12, 15, 18, 21, 24, 27]"
proof -
  let ?r = "\<lparr>shape = [n_nb], dtype = float32, strides = [4], elems = sum_elems\<rparr>"
  have len: "length sum_elems = n_nb" by (simp add: sum_elems_def)
  have ten: "take 10 sum_elems = map (\<lambda>i. Fin False (3 * i * 2 ^ 149)) [0..<10]"
    using n_nb_small(2) by (simp add: sum_elems_def take_map del: power_numeral upt_rec_numeral)
  have el: "valof Binary32 (elems x_nb ! i) = real i \<and>
            valof Binary32 (elems y_nb ! i) = 2 * real i \<and>
            sum_elems ! i = add_ufunc (elems x_nb ! i) (elems y_nb ! i) \<and>
            is_finite (sum_elems ! i) \<and>
            valof Binary32 (sum_elems ! i) = 3 * real i" if "i < n_nb" for i
  proof -
    from that n_nb_small(1) have "i + 2 * i < 2 ^ 24" by simp
    from fadd_small [OF this]
    have "add_ufunc (Fin False (i * 2 ^ 149)) (Fin False (2 * i * 2 ^ 149)) =
        Fin False (3 * i * 2 ^ 149)"
      by (simp add: add_ufunc_def del: power_numeral fadd.simps)
    with that show ?thesis
      by (simp add: x_nb_elems y_nb_elems sum_elems_def del: fadd.simps)
  qed
  have upt10: "[0..<10] = [0, 1, 2, 3, 4, 5, 6, 7, 8, 9::nat]"
    by code_simp
  have vals: "map (valof Binary32) (take 10 sum_elems) = [0, 3, 6, 9, 12, 15, 18, 21, 24, 27]"
    unfolding ten upt10 by simp
  have sel: "shape ?r = [n_nb]" "dtype ?r = float32" "elems ?r = sum_elems"
    by simp_all
  have all: "\<forall>i<n_nb. valof Binary32 (elems x_nb ! i) = real i \<and>
                valof Binary32 (elems y_nb ! i) = 2 * real i \<and>
                sum_elems ! i = add_ufunc (elems x_nb ! i) (elems y_nb ! i) \<and>
                is_finite (sum_elems ! i) \<and>
                valof Binary32 (sum_elems ! i) = 3 * real i"
    using el by (intro allI impI)
  have "out_host g = Inr ?r \<and> shape ?r = [n_nb] \<and> dtype ?r = float32 \<and>
      length (elems ?r) = n_nb \<and>
      (\<forall>i<n_nb. valof Binary32 (elems x_nb ! i) = real i \<and>
                valof Binary32 (elems y_nb ! i) = 2 * real i \<and>
                elems ?r ! i = add_ufunc (elems x_nb ! i) (elems y_nb ! i) \<and>
                is_finite (elems ?r ! i) \<and>
                valof Binary32 (elems ?r ! i) = 3 * real i) \<and>
      map (valof Binary32) (take 10 (elems ?r)) = [0, 3, 6, 9, 12, 15, 18, 21, 24, 27]"
    unfolding sel using out_host_value [of g] len all vals by (intro conjI refl)
  then show ?thesis by (rule exI)
qed

theorem add_ufunc_sum_exact_witness:
  "(7::nat) < n_nb \<and>
   (\<exists>r. out_host gpu0 = Inr r \<and> elems r ! 7 = add_ufunc (elems x_nb ! 7) (elems y_nb ! 7) \<and>
      valof Binary32 (elems r ! 7) = 3 * real (7::nat))"
proof -
  have lt: "(7::nat) < n_nb" by (simp add: n_nb_def)
  from add_ufunc_sum_exact [of gpu0] obtain r where
    r: "out_host gpu0 = Inr r" and
    a: "\<forall>i<n_nb. valof Binary32 (elems x_nb ! i) = real i \<and>
                valof Binary32 (elems y_nb ! i) = 2 * real i \<and>
                elems r ! i = add_ufunc (elems x_nb ! i) (elems y_nb ! i) \<and>
                is_finite (elems r ! i) \<and>
                valof Binary32 (elems r ! i) = 3 * real i"
    by (elim exE conjE)
  note c = a [rule_format, OF lt]
  from c have c3: "elems r ! 7 = add_ufunc (elems x_nb ! 7) (elems y_nb ! 7)"
    by (elim conjE)
  from c have c5: "valof Binary32 (elems r ! 7) = 3 * real (7::nat)"
    by (elim conjE)
  from lt r c3 c5 show ?thesis by (intro conjI exI [of _ r])
qed

text \<open>
  Claim C7. The call of \<^verbatim>\<open>make_pulses\<close> in the last cell, with the device array of \<open>t\<close> and
  with device arrays made from the Python numbers \<^verbatim>\<open>period\<close> and \<^verbatim>\<open>100.0\<close>, raises the
  \<^verbatim>\<open>TypeError\<close> "No matching version" of the dispatch, from every state of the device and
  whatever the sine is; the cell ends with this exception. The same function called with
  the host array and the two Python numbers themselves resolves to its one signature.
\<close>

theorem last_cell_type_error:
  "last_cell approx g = Inl (TypeError no_matching_version) \<and>
   resolve_signature (make_pulses_gpu approx)
     [HostArg t_nb, ScalarArg period_nb, ScalarArg (fconst Binary64 100 1)] =
       Inr ([float32, float32, float32], float32)"
proof -
  have t: "dtype t_nb = float32" by (simp add: t_nb_def astype_def)
  have c: "sentry_contiguous t_nb = Inr ()"
    by (simp add: sentry_contiguous_def t_nb_def astype_def arange_def array_core_def
        c_contig_def n_nb_def)
  have f: "sentry_contiguous \<lparr>shape = [], dtype = float64, strides = [], elems = [v]\<rparr> = Inr ()"
    for v
    by (simp add: sentry_contiguous_def array_core_def c_contig_def)
  show ?thesis
    by (simp add: last_cell_def device_array_def to_device_def ufunc_call_def Let_def
        resolve_signature_def make_pulses_gpu_def matches_def t c f)
qed

text \<open>
  Claim C9 (as amended). Not every host array can be transferred: \<^verbatim>\<open>cuda.to_device\<close> raises
  \<^verbatim>\<open>ValueError\<close> for an array that is not one region of memory, such as the view
  \<^verbatim>\<open>base[::2]\<close>. For every host array \<open>x\<close> of \<^verbatim>\<open>float32\<close> or \<^verbatim>\<open>float64\<close> elements that is
  C-contiguous or F-contiguous, and from every state of the device, \<^verbatim>\<open>cuda.to_device(x)\<close>
  returns a device array of the shape and element type of \<open>x\<close> whose buffer holds the
  elements of \<open>x\<close>, and \<^verbatim>\<open>copy_to_host()\<close> on it returns a host array equal to \<open>x\<close>: the same
  shape, the same element type and the same elements. This remains so after a later
  \<^verbatim>\<open>cuda.device_array\<close> and after the transfer of a second such array \<open>y\<close>, which comes
  back as \<open>y\<close>.
\<close>

theorem to_device_copy_to_host:
  assumes "well_formed x" and "c_contiguous x \<or> f_contiguous x"
    and "well_formed y" and "c_contiguous y \<or> f_contiguous y"
  shows "\<exists>d g1. to_device (Array x) g = Inr (d, g1) \<and>
           d_shape d = shape x \<and> d_dtype d = dtype x \<and>
           buffers g1 (d_buf d) = Some (elems x) \<and>
           copy_to_host d g1 = Inr x \<and>
           (\<exists>r. copy_to_host d g1 = Inr r \<and> shape r = shape x \<and> dtype r = dtype x \<and>
                length (elems r) = prod_list (shape x) \<and> elems r = elems x) \<and>
           copy_to_host d (snd (device_array sh t g1)) = Inr x \<and>
           (\<exists>d' g2. to_device (Array y) g1 = Inr (d', g2) \<and>
                copy_to_host d g2 = Inr x \<and> copy_to_host d' g2 = Inr y)"
proof -
  let ?d = "\<lparr>d_shape = shape x, d_dtype = dtype x, d_strides = strides x, d_buf = fresh g\<rparr>"
  let ?g1 = "g\<lparr>buffers := (buffers g)(fresh g \<mapsto> elems x), fresh := Suc (fresh g)\<rparr>"
  let ?d' = "\<lparr>d_shape = shape y, d_dtype = dtype y, d_strides = strides y, d_buf = fresh ?g1\<rparr>"
  let ?g2 = "?g1\<lparr>buffers := (buffers ?g1)(fresh ?g1 \<mapsto> elems y), fresh := Suc (fresh ?g1)\<rparr>"
  have t: "to_device (Array x) g = Inr (?d, ?g1)"
    using assms(2) by (rule to_device_ok)
  have t': "to_device (Array y) ?g1 = Inr (?d', ?g2)"
    using assms(4) by (rule to_device_ok)
  have c: "copy_to_host ?d ?g1 = Inr x"
    by (simp add: copy_to_host_def)
  from assms(1) have len: "length (elems x) = prod_list (shape x)"
    by (simp add: well_formed_def)
  have r: "\<exists>r. copy_to_host ?d ?g1 = Inr r \<and> shape r = shape x \<and> dtype r = dtype x \<and>
      length (elems r) = prod_list (shape x) \<and> elems r = elems x"
    using c len by (intro exI [of _ x]) simp
  have a: "copy_to_host ?d (snd (device_array sh t ?g1)) = Inr x"
    by (simp add: copy_to_host_def device_array_def)
  have b: "copy_to_host ?d ?g2 = Inr x" "copy_to_host ?d' ?g2 = Inr y"
    by (simp_all add: copy_to_host_def)
  have two: "\<exists>d' g2. to_device (Array y) ?g1 = Inr (d', g2) \<and>
      copy_to_host ?d g2 = Inr x \<and> copy_to_host d' g2 = Inr y"
  proof -
    from t' b have "to_device (Array y) ?g1 = Inr (?d', ?g2) \<and>
      copy_to_host ?d ?g2 = Inr x \<and> copy_to_host ?d' ?g2 = Inr y"
      by (intro conjI)
    then show ?thesis
      by (intro exI [of _ ?d'] exI [of _ ?g2])
  qed
  have sel: "d_shape ?d = shape x" "d_dtype ?d = dtype x" "buffers ?g1 (d_buf ?d) = Some (elems x)"
    by simp_all
  from t sel c r a two
  have body: "to_device (Array x) g = Inr (?d, ?g1) \<and>
           d_shape ?d = shape x \<and> d_dtype ?d = dtype x \<and>
           buffers ?g1 (d_buf ?d) = Some (elems x) \<and>
           copy_to_host ?d ?g1 = Inr x \<and>
           (\<exists>r. copy_to_host ?d ?g1 = Inr r \<and> shape r = shape x \<and> dtype r = dtype x \<and>
                length (elems r) = prod_list (shape x) \<and> elems r = elems x) \<and>
           copy_to_host ?d (snd (device_array sh t ?g1)) = Inr x \<and>
           (\<exists>d' g2. to_device (Array y) ?g1 = Inr (d', g2) \<and>
                copy_to_host ?d g2 = Inr x \<and> copy_to_host d' g2 = Inr y)"
    by (intro conjI)
  show ?thesis
    by (rule exI [of _ ?d], rule exI [of _ ?g1]) (rule body)
qed

theorem to_device_copy_to_host_witness:
  "well_formed f_order_2x2 \<and> f_contiguous f_order_2x2 \<and> \<not> c_contiguous f_order_2x2 \<and>
   well_formed three_doubles \<and> c_contiguous three_doubles \<and>
   (\<exists>d g1. to_device (Array f_order_2x2) gpu0 = Inr (d, g1) \<and>
      copy_to_host d g1 = Inr f_order_2x2 \<and>
      (\<exists>d' g2. to_device (Array three_doubles) g1 = Inr (d', g2) \<and>
         copy_to_host d g2 = Inr f_order_2x2 \<and> copy_to_host d' g2 = Inr three_doubles))"
proof -
  have w: "well_formed f_order_2x2" "well_formed three_doubles"
    by (simp_all add: well_formed_def f_order_2x2_def three_doubles_def)
  have f: "f_contiguous f_order_2x2"
    by (simp add: f_contiguous_def f_contig_def f_order_2x2_def)
  have n: "\<not> c_contiguous f_order_2x2"
    by (simp add: c_contiguous_def c_contig_def f_order_2x2_def)
  have c: "c_contiguous three_doubles"
    by (simp add: c_contiguous_def c_contig_def three_doubles_def)
  from f have f': "c_contiguous f_order_2x2 \<or> f_contiguous f_order_2x2" by simp
  from c have c': "c_contiguous three_doubles \<or> f_contiguous three_doubles" by simp
  from to_device_copy_to_host [OF w(1) f' w(2) c', of gpu0 "[]" float32]
  have "\<exists>d g1. to_device (Array f_order_2x2) gpu0 = Inr (d, g1) \<and>
      copy_to_host d g1 = Inr f_order_2x2 \<and>
      (\<exists>d' g2. to_device (Array three_doubles) g1 = Inr (d', g2) \<and>
         copy_to_host d g2 = Inr f_order_2x2 \<and> copy_to_host d' g2 = Inr three_doubles)"
    by (elim exE conjE) (intro exI conjI, assumption+)
  with w f n c show ?thesis by (intro conjI)
qed

text \<open>
  The claim as it was stated, for every host array, does not hold: the transfer of
  \<^verbatim>\<open>base[::2]\<close> raises \<^verbatim>\<open>ValueError\<close>.
\<close>

theorem to_device_strided_counterexample:
  "\<not> (\<forall>x g. well_formed x \<longrightarrow>
        (\<exists>d g1. to_device (Array x) g = Inr (d, g1) \<and> copy_to_host d g1 = Inr x))"
proof
  assume h: "\<forall>x g. well_formed x \<longrightarrow>
        (\<exists>d g1. to_device (Array x) g = Inr (d, g1) \<and> copy_to_host d g1 = Inr x)"
  have w: "well_formed every_other"
    by (simp add: well_formed_def every_other_def)
  have e: "to_device (Array every_other) gpu0 = Inl (ValueError errmsg_contiguous_buffer)"
    by (simp add: to_device_def sentry_contiguous_def array_core_def c_contig_def f_contig_def
        every_other_def)
  from h [rule_format, OF w, of gpu0] show False
    by (simp add: e)
qed





end
